theory Spec2Isabelle
  imports Main
begin

section \<open>The rate limiter (src/rateLimiter.js)\<close>

text \<open>
  Numbers are modelled as \<open>int\<close>: limits, window lengths, counters and the
  millisecond clock \<open>Date.now()\<close> are integers well inside the range in which
  JavaScript numbers are exact. The clock is passed to every call as the argument \<open>now\<close>.
\<close>

text \<open>An entry of \<open>memoryStore\<close>: \<open>{ count, resetTime }\<close>.\<close>

record entry =
  count :: int
  resetTime :: int

text \<open>
  The fields of a \<open>RateLimiter\<close> object. \<open>memoryStore\<close> is a JavaScript \<open>Map\<close>
  from the key \<open>`${userId}:${key}`\<close> to its entry.
\<close>

record RateLimiter =
  driver :: string
  memoryStore :: "string \<rightharpoonup> entry"
  initialized :: bool

text \<open>
  The object a check returns: \<open>{ allowed, remaining, resetTime, current, limit }\<close>, with
  \<open>retryAfter\<close> set only on a rejected request. The field \<open>resetTime\<close> of the result is
  named \<open>resetTime_res\<close>, the name being taken by the entry.
\<close>

record limit_result =
  allowed :: bool
  remaining :: int
  resetTime_res :: int
  current :: int
  limit :: int
  retryAfter :: "int option"

text \<open>
  The Redis client (\<open>./redisClient\<close>, ioredis) is outside the program. What it does during
  one call is a parameter of the model:
  \<^item> \<open>connect_ok\<close>: \<open>redisClient.connect()\<close> resolves (it rejects otherwise);
  \<^item> \<open>client\<close>: \<open>getClient()\<close> throws, or gives no client or one that is not ready, or
    gives a ready client;
  \<^item> \<open>exec\<close>: \<open>pipeline.exec()\<close> rejects, resolves to \<open>null\<close>, or resolves to a list of
    \<open>[error, value]\<close> pairs (the error as a truth value);
  \<^item> \<open>expire_ok\<close>: \<open>redis.expire\<close> resolves (it rejects otherwise).
\<close>

datatype client_state = ClientThrows | ClientMissing | ClientReady

datatype exec_outcome = ExecThrows | ExecNull | ExecResults "(bool \<times> int) list"

record redis_io =
  connect_ok :: bool
  client :: client_state
  exec :: exec_outcome
  expire_ok :: bool

text \<open>
  The errors raised inside \<open>_checkLimitRedis\<close>: \<open>'Redis pipeline failed'\<close>,
  \<open>'Redis command failed'\<close>, and whatever the client library throws.
\<close>

datatype rl_error = PipelineFailed | CommandFailed | ClientError

text \<open>The constructor: \<open>process.env.RATE_LIMIT_DRIVER || 'memory'\<close>.\<close>

definition RateLimiter_new :: "string option \<Rightarrow> RateLimiter" where
  "RateLimiter_new env_driver =
     \<lparr>driver = (case env_driver of
                  None \<Rightarrow> ''memory''
                | Some d \<Rightarrow> if d = [] then ''memory'' else d),
      memoryStore = Map.empty,
      initialized = False\<rparr>"

text \<open>\<open>initialize()\<close>: a failed connection switches the driver to \<open>'memory'\<close>.\<close>

definition initialize :: "redis_io \<Rightarrow> RateLimiter \<Rightarrow> RateLimiter" where
  "initialize io s =
     (if initialized s then s
      else (if driver s = ''redis''
            then (if connect_ok io then s else s\<lparr>driver := ''memory''\<rparr>)
            else s)\<lparr>initialized := True\<rparr>)"

text \<open>\<open>Math.ceil(x / 1000)\<close> on an integer \<open>x\<close>.\<close>

definition ceil_div1000 :: "int \<Rightarrow> int" where
  "ceil_div1000 x = - ((- x) div 1000)"

text \<open>\<open>_checkLimitMemory(userId, key, limit, windowSeconds)\<close>.\<close>

definition checkLimitMemory ::
  "RateLimiter \<Rightarrow> string \<Rightarrow> string \<Rightarrow> int \<Rightarrow> int \<Rightarrow> int \<Rightarrow> limit_result \<times> RateLimiter" where
  "checkLimitMemory s userId key lim windowSeconds now =
     (let memoryKey = userId @ '':'' @ key;
          windowMs = windowSeconds * 1000
      in case memoryStore s memoryKey of
           None \<Rightarrow>
             (\<lparr>allowed = True, remaining = lim - 1, resetTime_res = now + windowMs,
               current = 1, limit = lim, retryAfter = None\<rparr>,
              s\<lparr>memoryStore := (memoryStore s)
                   (memoryKey \<mapsto> \<lparr>count = 1, resetTime = now + windowMs\<rparr>)\<rparr>)
         | Some e \<Rightarrow>
             if now \<ge> resetTime e
             then (\<lparr>allowed = True, remaining = lim - 1, resetTime_res = now + windowMs,
                    current = 1, limit = lim, retryAfter = None\<rparr>,
                   s\<lparr>memoryStore := (memoryStore s)
                        (memoryKey \<mapsto> \<lparr>count = 1, resetTime = now + windowMs\<rparr>)\<rparr>)
             else
               (let c = count e + 1;
                    ok = (c \<le> lim)
                in (\<lparr>allowed = ok, remaining = max 0 (lim - c), resetTime_res = resetTime e,
                     current = c, limit = lim,
                     retryAfter = (if ok then None
                                   else Some (ceil_div1000 (resetTime e - now)))\<rparr>,
                    s\<lparr>memoryStore := (memoryStore s)
                         (memoryKey \<mapsto> \<lparr>count = c, resetTime = resetTime e\<rparr>)\<rparr>)))"

text \<open>
  The body of the \<open>try\<close> block of \<open>_checkLimitRedis\<close>: \<open>Inl\<close> is a thrown error, \<open>Inr\<close> the
  value returned. With no usable client the body itself returns the answer of
  \<open>_checkLimitMemory\<close>.
\<close>

definition checkLimitRedis_try ::
  "redis_io \<Rightarrow> RateLimiter \<Rightarrow> string \<Rightarrow> string \<Rightarrow> int \<Rightarrow> int \<Rightarrow> int
     \<Rightarrow> rl_error + (limit_result \<times> RateLimiter)" where
  "checkLimitRedis_try io s userId key lim windowSeconds now =
     (case client io of
        ClientThrows \<Rightarrow> Inl ClientError
      | ClientMissing \<Rightarrow> Inr (checkLimitMemory s userId key lim windowSeconds now)
      | ClientReady \<Rightarrow>
          (case exec io of
             ExecThrows \<Rightarrow> Inl ClientError
           | ExecNull \<Rightarrow> Inl PipelineFailed
           | ExecResults results \<Rightarrow>
               (case results of
                  [incrResult, ttlResult] \<Rightarrow>
                    if fst incrResult \<or> fst ttlResult then Inl CommandFailed
                    else
                      (let currentCount = snd incrResult;
                           ttl = snd ttlResult
                       in if (currentCount = 1 \<or> ttl = - 1) \<and> \<not> expire_ok io
                          then Inl ClientError
                          else
                            (let ok = (currentCount \<le> lim)
                             in Inr (\<lparr>allowed = ok,
                                      remaining = max 0 (lim - currentCount),
                                      resetTime_res =
                                        now + (if ttl > 0 then ttl * 1000
                                               else windowSeconds * 1000),
                                      current = currentCount,
                                      limit = lim,
                                      retryAfter =
                                        (if ok then None
                                         else Some (if ttl > 0 then ttl
                                                    else windowSeconds))\<rparr>,
                                     s)))
                | _ \<Rightarrow> Inl PipelineFailed)))"

text \<open>\<open>_checkLimitRedis\<close>: the \<open>catch\<close> block answers from memory.\<close>

definition checkLimitRedis ::
  "redis_io \<Rightarrow> RateLimiter \<Rightarrow> string \<Rightarrow> string \<Rightarrow> int \<Rightarrow> int \<Rightarrow> int
     \<Rightarrow> limit_result \<times> RateLimiter" where
  "checkLimitRedis io s userId key lim windowSeconds now =
     (case checkLimitRedis_try io s userId key lim windowSeconds now of
        Inl err \<Rightarrow> checkLimitMemory s userId key lim windowSeconds now
      | Inr r \<Rightarrow> r)"

text \<open>\<open>checkLimit(userId, key, limit, windowSeconds)\<close>.\<close>

definition checkLimit ::
  "redis_io \<Rightarrow> RateLimiter \<Rightarrow> string \<Rightarrow> string \<Rightarrow> int \<Rightarrow> int \<Rightarrow> int
     \<Rightarrow> limit_result \<times> RateLimiter" where
  "checkLimit io s userId key lim windowSeconds now =
     (let s' = initialize io s
      in if driver s' = ''redis''
         then checkLimitRedis io s' userId key lim windowSeconds now
         else checkLimitMemory s' userId key lim windowSeconds now)"

text \<open>\<open>cleanupMemoryStore()\<close>, run every five minutes.\<close>

definition cleanupMemoryStore :: "RateLimiter \<Rightarrow> int \<Rightarrow> RateLimiter" where
  "cleanupMemoryStore s now =
     (if driver s \<noteq> ''memory'' then s
      else s\<lparr>memoryStore :=
             (\<lambda>k. case memoryStore s k of
                    None \<Rightarrow> None
                  | Some e \<Rightarrow> if now \<ge> resetTime e then None else Some e)\<rparr>)"

text \<open>
  A run of calls for one user, key, limit and window: each call has its own Redis
  behaviour and clock reading, and works on the state the call before it left.
\<close>

fun checkLimit_calls ::
  "RateLimiter \<Rightarrow> string \<Rightarrow> string \<Rightarrow> int \<Rightarrow> int \<Rightarrow> (redis_io \<times> int) list
     \<Rightarrow> limit_result list" where
  "checkLimit_calls s userId key lim windowSeconds [] = []"
| "checkLimit_calls s userId key lim windowSeconds (c # cs) =
     fst (checkLimit (fst c) s userId key lim windowSeconds (snd c))
       # checkLimit_calls (snd (checkLimit (fst c) s userId key lim windowSeconds (snd c)))
           userId key lim windowSeconds cs"

text \<open>
  The state a limiter is left in by a run of calls, each call with its own Redis
  behaviour, user, key, limit, window and clock reading.
\<close>

type_synonym limit_call = "redis_io \<times> string \<times> string \<times> int \<times> int \<times> int"

fun checkLimit_run :: "RateLimiter \<Rightarrow> limit_call list \<Rightarrow> RateLimiter" where
  "checkLimit_run s [] = s"
| "checkLimit_run s ((io, userId, key, lim, windowSeconds, now) # cs) =
     checkLimit_run (snd (checkLimit io s userId key lim windowSeconds now)) cs"


section \<open>The quota service (src/services/userQuota.js)\<close>

text \<open>
  Byte amounts and megabyte totals are integers (\<open>int\<close>); dividing an integer below
  \<open>2^53\<close> by \<open>1024 * 1024\<close> is exact in JavaScript, so \<open>Math.ceil\<close> of the quotient is
  the integer ceiling.
\<close>

text \<open>
  \<open>quotaCache\<close> is a JavaScript \<open>Map\<close>, which keeps its keys in insertion order: a list of
  pairs with the oldest key first. \<open>set\<close> on a key that is present keeps its place, on a
  new key appends; \<open>delete\<close> removes the key; \<open>get\<close> gives \<open>undefined\<close> (\<open>None\<close>) for a
  missing key.
\<close>

type_synonym js_map = "(string \<times> int) list"

definition Map_get :: "js_map \<Rightarrow> string \<Rightarrow> int option" where
  "Map_get c k = map_of c k"

primrec Map_set :: "js_map \<Rightarrow> string \<Rightarrow> int \<Rightarrow> js_map" where
  "Map_set [] k v = [(k, v)]"
| "Map_set (p # ps) k v = (if fst p = k then (k, v) # ps else p # Map_set ps k v)"

definition Map_delete :: "js_map \<Rightarrow> string \<Rightarrow> js_map" where
  "Map_delete c k = filter (\<lambda>p. fst p \<noteq> k) c"

text \<open>\<open>x || 0\<close> on a number that may be \<open>undefined\<close>, \<open>null\<close> or \<open>NaN\<close>.\<close>

definition or0 :: "int option \<Rightarrow> int" where
  "or0 x = (case x of None \<Rightarrow> 0 | Some v \<Rightarrow> v)"

text \<open>\<open>parseInt(process.env.X) || dflt\<close>: \<open>None\<close> is \<open>NaN\<close>; \<open>0\<close> is falsy too.\<close>

definition or_default :: "int option \<Rightarrow> int \<Rightarrow> int" where
  "or_default x dflt = (case x of None \<Rightarrow> dflt | Some v \<Rightarrow> if v = 0 then dflt else v)"

text \<open>The fields of a \<open>UserQuotaService\<close>; \<open>redis\<close> says that \<open>this.redis\<close> is a client.\<close>

record UserQuotaService =
  enabled :: bool
  dailyLimit :: int
  monthlyLimit :: int
  redis :: bool
  quotaCache :: js_map

text \<open>
  The Redis server is outside the program. Its content is modelled as a map from keys to
  integer values, with \<open>GET\<close> reading a key and \<open>INCRBY\<close> adding to it (a missing key
  counts as 0). The expiry set by \<open>recordUsage\<close> (two days for the daily key, 32 days for
  the monthly key, renewed by every recording) outlasts the calendar period of the key
  and is left out.
\<close>

type_synonym redis_db = "string \<rightharpoonup> int"

definition incrby :: "redis_db \<Rightarrow> string \<Rightarrow> int \<Rightarrow> redis_db" where
  "incrby d k n = d(k \<mapsto> or0 (d k) + n)"

text \<open>The service together with the Redis content it talks to.\<close>

record quota_state =
  svc :: UserQuotaService
  db :: redis_db

text \<open>
  What the Redis client does during one call: \<open>get_ok\<close> says that the two \<open>GET\<close>s of
  \<open>getUsage\<close> resolve, \<open>pipeline_ok\<close> that \<open>pipeline.exec()\<close> of \<open>recordUsage\<close> resolves. A
  rejected pipeline is taken to have written nothing.
\<close>

record quota_io =
  get_ok :: bool
  pipeline_ok :: bool

text \<open>
  The constructor. Its arguments are \<open>process.env.USER_QUOTA_ENABLED\<close>, the results of
  \<open>parseInt\<close> on the two limit variables, and whether \<open>new Redis(...)\<close> returns (it throws
  otherwise, and the service falls back to \<open>quotaCache\<close>).
\<close>

definition UserQuotaService_new ::
  "string option \<Rightarrow> int option \<Rightarrow> int option \<Rightarrow> bool \<Rightarrow> UserQuotaService" where
  "UserQuotaService_new env_enabled env_daily env_monthly redis_ctor_ok =
     \<lparr>enabled = (env_enabled = Some ''true''),
      dailyLimit = or_default env_daily 100,
      monthlyLimit = or_default env_monthly 1000,
      redis = (env_enabled = Some ''true'' \<and> redis_ctor_ok),
      quotaCache = []\<rparr>"

text \<open>\<open>Math.ceil(fileSizeBytes / (1024 * 1024))\<close>.\<close>

definition ceil_MB :: "int \<Rightarrow> int" where
  "ceil_MB fileSizeBytes = - ((- fileSizeBytes) div (1024 * 1024))"

text \<open>\<open>String(n)\<close> for integers, and \<open>padStart(2, '0')\<close>.\<close>

definition digit_char :: "nat \<Rightarrow> char" where
  "digit_char n = ''0123456789'' ! n"

fun String_nat :: "nat \<Rightarrow> string" where
  "String_nat n =
     (if n < 10 then [digit_char n] else String_nat (n div 10) @ [digit_char (n mod 10)])"

declare String_nat.simps [simp del]

definition String_int :: "int \<Rightarrow> string" where
  "String_int i = (if i < 0 then CHR ''-'' # String_nat (nat (- i)) else String_nat (nat i))"

definition padStart2 :: "string \<Rightarrow> string" where
  "padStart2 s = (if length s < 2 then replicate (2 - length s) CHR ''0'' @ s else s)"

text \<open>
  The calendar fields read from \<open>new Date()\<close>: \<open>getFullYear()\<close>, \<open>getMonth()\<close> (from 0) and
  \<open>getDate()\<close>.
\<close>

record date_parts =
  fullYear :: nat
  month0 :: nat
  dayOfMonth :: nat

definition monthlyKey :: "string \<Rightarrow> date_parts \<Rightarrow> string" where
  "monthlyKey userId now =
     ''quota:'' @ userId @ '':'' @ String_nat (fullYear now) @ ''-''
       @ padStart2 (String_nat (month0 now + 1))"

definition dailyKey :: "string \<Rightarrow> date_parts \<Rightarrow> string" where
  "dailyKey userId now =
     ''quota:'' @ userId @ '':'' @ String_nat (fullYear now) @ ''-''
       @ padStart2 (String_nat (month0 now + 1)) @ ''-''
       @ padStart2 (String_nat (dayOfMonth now))"

text \<open>\<open>getUsage(userId)\<close>: a failed read is answered with zeros.\<close>

record quota_usage =
  dailyUsage :: int
  monthlyUsage :: int

definition getUsage ::
  "quota_io \<Rightarrow> quota_state \<Rightarrow> string \<Rightarrow> date_parts \<Rightarrow> quota_usage \<times> quota_state" where
  "getUsage io w userId now =
     (if redis (svc w)
      then (if get_ok io
            then (\<lparr>dailyUsage = or0 (db w (dailyKey userId now)),
                   monthlyUsage = or0 (db w (monthlyKey userId now))\<rparr>, w)
            else (\<lparr>dailyUsage = 0, monthlyUsage = 0\<rparr>, w))
      else (\<lparr>dailyUsage = or0 (Map_get (quotaCache (svc w)) (dailyKey userId now)),
             monthlyUsage = or0 (Map_get (quotaCache (svc w)) (monthlyKey userId now))\<rparr>, w))"

text \<open>
  The object \<open>checkQuota\<close> returns: \<open>{ allowed, reason?, usage? }\<close>, where \<open>usage\<close> is
  \<open>{ ...usage, dailyRemaining, monthlyRemaining }\<close>. The field \<open>allowed\<close> is named
  \<open>quota_allowed\<close>, the name being taken by the rate limiter's result.
\<close>

record usage_report = quota_usage +
  dailyRemaining :: int
  monthlyRemaining :: int

record quota_result =
  quota_allowed :: bool
  reason :: "string option"
  usage :: "usage_report option"

text \<open>
  \<open>checkQuota(userId, fileSizeBytes)\<close>. Nothing in its \<open>try\<close> block throws (\<open>getUsage\<close>
  catches its own errors), so its \<open>catch\<close> block has no branch here.
\<close>

definition checkQuota ::
  "quota_io \<Rightarrow> quota_state \<Rightarrow> string \<Rightarrow> int \<Rightarrow> date_parts \<Rightarrow> quota_result \<times> quota_state" where
  "checkQuota io w userId fileSizeBytes now =
     (if \<not> enabled (svc w)
      then (\<lparr>quota_allowed = True, reason = None, usage = None\<rparr>, w)
      else
        (let fileSizeMB = ceil_MB fileSizeBytes;
             u = fst (getUsage io w userId now);
             w' = snd (getUsage io w userId now);
             dlim = dailyLimit (svc w');
             mlim = monthlyLimit (svc w')
         in if dailyUsage u + fileSizeMB > dlim
            then (\<lparr>quota_allowed = False,
                   reason = Some (''Daily upload limit exceeded ('' @ String_int dlim @ ''MB)''),
                   usage = Some \<lparr>dailyUsage = dailyUsage u, monthlyUsage = monthlyUsage u,
                                 dailyRemaining = max 0 (dlim - dailyUsage u),
                                 monthlyRemaining = max 0 (mlim - monthlyUsage u)\<rparr>\<rparr>, w')
            else if monthlyUsage u + fileSizeMB > mlim
            then (\<lparr>quota_allowed = False,
                   reason = Some (''Monthly upload limit exceeded ('' @ String_int mlim @ ''MB)''),
                   usage = Some \<lparr>dailyUsage = dailyUsage u, monthlyUsage = monthlyUsage u,
                                 dailyRemaining = max 0 (dlim - dailyUsage u),
                                 monthlyRemaining = max 0 (mlim - monthlyUsage u)\<rparr>\<rparr>, w')
            else (\<lparr>quota_allowed = True,
                   reason = None,
                   usage = Some \<lparr>dailyUsage = dailyUsage u, monthlyUsage = monthlyUsage u,
                                 dailyRemaining = dlim - dailyUsage u - fileSizeMB,
                                 monthlyRemaining = mlim - monthlyUsage u - fileSizeMB\<rparr>\<rparr>,
                  w')))"

text \<open>
  \<open>recordUsage(userId, fileSizeBytes)\<close>. On the cache, both totals are read before either
  is written, and a cache of more than 10000 keys then loses its 1000 oldest keys.
\<close>

definition recordUsage ::
  "quota_io \<Rightarrow> quota_state \<Rightarrow> string \<Rightarrow> int \<Rightarrow> date_parts \<Rightarrow> quota_state" where
  "recordUsage io w userId fileSizeBytes now =
     (if \<not> enabled (svc w) then w
      else
        (let fileSizeMB = ceil_MB fileSizeBytes;
             dKey = dailyKey userId now;
             mKey = monthlyKey userId now
         in if redis (svc w)
            then (if pipeline_ok io
                  then w\<lparr>db := incrby (incrby (db w) dKey fileSizeMB) mKey fileSizeMB\<rparr>
                  else w)
            else
              (let c = quotaCache (svc w);
                   currentDaily = or0 (Map_get c dKey);
                   currentMonthly = or0 (Map_get c mKey);
                   c1 = Map_set c dKey (currentDaily + fileSizeMB);
                   c2 = Map_set c1 mKey (currentMonthly + fileSizeMB);
                   c3 = (if length c2 > 10000
                         then fold (\<lambda>k m. Map_delete m k) (map fst (take 1000 c2)) c2
                         else c2)
               in w\<lparr>svc := (svc w)\<lparr>quotaCache := c3\<rparr>\<rparr>)))"

text \<open>
  A cache that holds 10000 keys, the most \<open>recordUsage\<close> leaves behind: the monthly key of
  user \<open>u1\<close> for September 2025 first, then the monthly keys of 9999 other users
  (\<open>x\<close>, \<open>xx\<close>, \<open>xxx\<close> and so on).
\<close>

definition full_cache :: js_map where
  "full_cache =
     (monthlyKey ''u1'' \<lparr>fullYear = 2025, month0 = 8, dayOfMonth = 20\<rparr>, 5)
       # map (\<lambda>i. (monthlyKey (replicate (Suc i) CHR ''x'')
                       \<lparr>fullYear = 2025, month0 = 8, dayOfMonth = 20\<rparr>, 1))
           [0..<9999]"

section \<open>Properties of the rate limiter\<close>

subsection \<open>Routing and single calls\<close>

lemma initialize_memory:
  "driver s \<noteq> ''redis'' \<Longrightarrow> initialize io s = s\<lparr>initialized := True\<rparr>"
  by (cases s) (simp add: initialize_def)

lemma initialize_done:
  "initialized s \<Longrightarrow> initialize io s = s"
  by (simp add: initialize_def)

lemma checkLimit_memory_driver:
  "driver s \<noteq> ''redis'' \<Longrightarrow>
   checkLimit io s userId key lim windowSeconds now =
     checkLimitMemory (s\<lparr>initialized := True\<rparr>) userId key lim windowSeconds now"
  by (simp add: checkLimit_def initialize_memory)

lemma checkLimitMemory_driver:
  "driver (snd (checkLimitMemory s userId key lim windowSeconds now)) = driver s"
  by (simp add: checkLimitMemory_def Let_def split: option.splits)

lemma checkLimitMemory_initialized:
  "initialized (snd (checkLimitMemory s userId key lim windowSeconds now)) = initialized s"
  by (simp add: checkLimitMemory_def Let_def split: option.splits)

text \<open>A call on a key that is absent, or whose window has lapsed, opens a window.\<close>

lemma checkLimitMemory_fresh:
  assumes "case memoryStore s (userId @ '':'' @ key) of
             None \<Rightarrow> True | Some e \<Rightarrow> resetTime e \<le> now"
  shows "checkLimitMemory s userId key lim windowSeconds now =
     (\<lparr>allowed = True, remaining = lim - 1, resetTime_res = now + windowSeconds * 1000,
       current = 1, limit = lim, retryAfter = None\<rparr>,
      s\<lparr>memoryStore := (memoryStore s)
           (userId @ '':'' @ key \<mapsto> \<lparr>count = 1, resetTime = now + windowSeconds * 1000\<rparr>)\<rparr>)"
  using assms
  by (cases "memoryStore s (userId @ '':'' @ key)") (simp_all add: checkLimitMemory_def Let_def)

text \<open>A call inside the stored window counts, then decides.\<close>

lemma checkLimitMemory_within:
  assumes "memoryStore s (userId @ '':'' @ key) = Some e" and "now < resetTime e"
  shows "checkLimitMemory s userId key lim windowSeconds now =
     (\<lparr>allowed = (count e + 1 \<le> lim), remaining = max 0 (lim - (count e + 1)),
       resetTime_res = resetTime e, current = count e + 1, limit = lim,
       retryAfter = (if count e + 1 \<le> lim then None
                     else Some (ceil_div1000 (resetTime e - now)))\<rparr>,
      s\<lparr>memoryStore := (memoryStore s)
           (userId @ '':'' @ key \<mapsto> \<lparr>count = count e + 1, resetTime = resetTime e\<rparr>)\<rparr>)"
  using assms by (simp add: checkLimitMemory_def Let_def)

text \<open>
  The periodic cleanup removes lapsed entries only: a later call is answered as it would
  have been without it.
\<close>

lemma cleanup_keeps_answer:
  assumes "now' \<le> now"
  shows "fst (checkLimitMemory (cleanupMemoryStore s now') userId key lim windowSeconds now) =
         fst (checkLimitMemory s userId key lim windowSeconds now)"
  using assms
  by (cases "memoryStore s (userId @ '':'' @ key)")
     (simp_all add: checkLimitMemory_def cleanupMemoryStore_def Let_def)

text \<open>The answer of the Redis path when every command succeeds.\<close>

lemma checkLimitRedis_healthy:
  assumes "client io = ClientReady"
    and "exec io = ExecResults [(False, c), (False, ttl)]"
    and "expire_ok io"
  shows "checkLimitRedis io s userId key lim windowSeconds now =
     (\<lparr>allowed = (c \<le> lim), remaining = max 0 (lim - c),
       resetTime_res = now + (if ttl > 0 then ttl * 1000 else windowSeconds * 1000),
       current = c, limit = lim,
       retryAfter = (if c \<le> lim then None
                     else Some (if ttl > 0 then ttl else windowSeconds))\<rparr>, s)"
  using assms by (simp add: checkLimitRedis_def checkLimitRedis_try_def Let_def)

lemma checkLimit_redis_driver:
  assumes "driver s = ''redis''" and "initialized s \<or> connect_ok io"
  shows "checkLimit io s userId key lim windowSeconds now =
     checkLimitRedis io (s\<lparr>initialized := True\<rparr>) userId key lim windowSeconds now"
  using assms by (cases s) (auto simp add: checkLimit_def initialize_def)

lemma ceil_div1000_pos: "0 < x \<Longrightarrow> 0 < ceil_div1000 x"
  unfolding ceil_div1000_def by linarith

lemma ceil_div1000_le: "x \<le> w * 1000 \<Longrightarrow> ceil_div1000 x \<le> w"
  unfolding ceil_div1000_def by linarith

subsection \<open>Runs of calls inside one window\<close>

lemma calls_within_window:
  assumes "driver s \<noteq> ''redis''"
    and "memoryStore s (userId @ '':'' @ key) = Some e"
    and "\<forall>c\<in>set cs. snd c < resetTime e"
    and "i < length cs"
  shows "checkLimit_calls s userId key lim windowSeconds cs ! i =
     \<lparr>allowed = (count e + int i + 1 \<le> lim),
      remaining = max 0 (lim - (count e + int i + 1)),
      resetTime_res = resetTime e, current = count e + int i + 1, limit = lim,
      retryAfter = (if count e + int i + 1 \<le> lim then None
                    else Some (ceil_div1000 (resetTime e - snd (cs ! i))))\<rparr>"
  using assms
proof (induction cs arbitrary: s e i)
  case Nil
  then show ?case by simp
next
  case (Cons c cs)
  let ?s1 = "s\<lparr>initialized := True\<rparr>"
  let ?e2 = "\<lparr>count = count e + 1, resetTime = resetTime e\<rparr>"
  let ?s2 = "?s1\<lparr>memoryStore := (memoryStore ?s1) (userId @ '':'' @ key \<mapsto> ?e2)\<rparr>"
  have now: "snd c < resetTime e" using Cons.prems(3) by simp
  have st: "memoryStore ?s1 (userId @ '':'' @ key) = Some e" using Cons.prems(2) by simp
  have step: "checkLimit (fst c) s userId key lim windowSeconds (snd c) =
     (\<lparr>allowed = (count e + 1 \<le> lim), remaining = max 0 (lim - (count e + 1)),
       resetTime_res = resetTime e, current = count e + 1, limit = lim,
       retryAfter = (if count e + 1 \<le> lim then None
                     else Some (ceil_div1000 (resetTime e - snd c)))\<rparr>, ?s2)"
    using checkLimitMemory_within [OF st now] Cons.prems(1)
    by (simp add: checkLimit_memory_driver)
  show ?case
  proof (cases i)
    case 0
    then show ?thesis by (simp add: step)
  next
    case (Suc j)
    have "checkLimit_calls ?s2 userId key lim windowSeconds cs ! j =
     \<lparr>allowed = (count ?e2 + int j + 1 \<le> lim),
      remaining = max 0 (lim - (count ?e2 + int j + 1)),
      resetTime_res = resetTime ?e2, current = count ?e2 + int j + 1, limit = lim,
      retryAfter = (if count ?e2 + int j + 1 \<le> lim then None
                    else Some (ceil_div1000 (resetTime ?e2 - snd (cs ! j))))\<rparr>"
    proof (rule Cons.IH)
      show "driver ?s2 \<noteq> ''redis''" using Cons.prems(1) by simp
      show "memoryStore ?s2 (userId @ '':'' @ key) = Some ?e2" by simp
      show "\<forall>c\<in>set cs. snd c < resetTime ?e2" using Cons.prems(3) by simp
      show "j < length cs" using Cons.prems(4) Suc by simp
    qed
    then show ?thesis using Suc by (simp add: step add.assoc)
  qed
qed

text \<open>
  The \<open>K\<close>th call of a run whose first call opens the window and whose later calls all
  fall inside it.
\<close>

lemma kth_call_in_window:
  assumes drv: "driver s \<noteq> ''redis''"
    and lim1: "1 \<le> lim"
    and fresh: "case memoryStore s (userId @ '':'' @ key) of
                  None \<Rightarrow> True | Some e \<Rightarrow> resetTime e \<le> t0"
    and win: "\<forall>c\<in>set cs. snd c < t0 + windowSeconds * 1000"
    and K: "1 \<le> K" "K \<le> Suc (length cs)"
  shows "checkLimit_calls s userId key lim windowSeconds ((io0, t0) # cs) ! (K - 1) =
     \<lparr>allowed = (int K \<le> lim), remaining = max 0 (lim - int K),
      resetTime_res = t0 + windowSeconds * 1000, current = int K, limit = lim,
      retryAfter = (if int K \<le> lim then None
                    else Some (ceil_div1000 (t0 + windowSeconds * 1000
                                 - snd (((io0, t0) # cs) ! (K - 1)))))\<rparr>"
proof -
  let ?s0 = "s\<lparr>initialized := True\<rparr>"
  let ?e1 = "\<lparr>count = 1, resetTime = t0 + windowSeconds * 1000\<rparr>"
  let ?s1 = "?s0\<lparr>memoryStore := (memoryStore ?s0) (userId @ '':'' @ key \<mapsto> ?e1)\<rparr>"
  have fresh0: "case memoryStore ?s0 (userId @ '':'' @ key) of
                  None \<Rightarrow> True | Some e \<Rightarrow> resetTime e \<le> t0"
    using fresh by simp
  have first: "checkLimit io0 s userId key lim windowSeconds t0 =
     (\<lparr>allowed = True, remaining = lim - 1, resetTime_res = t0 + windowSeconds * 1000,
       current = 1, limit = lim, retryAfter = None\<rparr>, ?s1)"
    using checkLimitMemory_fresh [OF fresh0] drv by (simp add: checkLimit_memory_driver)
  show ?thesis
  proof (cases "K = 1")
    case True
    then show ?thesis using lim1 by (simp add: first)
  next
    case False
    with K(1) have "2 \<le> K" by simp
    then obtain j where j: "K = Suc (Suc j)"
      by (metis Suc_le_D numeral_2_eq_2 Suc_le_mono)
    have jlen: "j < length cs" using K(2) j by simp
    have nth: "checkLimit_calls ?s1 userId key lim windowSeconds cs ! j =
     \<lparr>allowed = (count ?e1 + int j + 1 \<le> lim),
      remaining = max 0 (lim - (count ?e1 + int j + 1)),
      resetTime_res = resetTime ?e1, current = count ?e1 + int j + 1, limit = lim,
      retryAfter = (if count ?e1 + int j + 1 \<le> lim then None
                    else Some (ceil_div1000 (resetTime ?e1 - snd (cs ! j))))\<rparr>"
    proof (rule calls_within_window)
      show "driver ?s1 \<noteq> ''redis''" using drv by simp
      show "memoryStore ?s1 (userId @ '':'' @ key) = Some ?e1" by simp
      show "\<forall>c\<in>set cs. snd c < resetTime ?e1" using win by simp
      show "j < length cs" by (rule jlen)
    qed
    show ?thesis using j nth by (simp add: first add.commute add.left_commute)
  qed
qed

text \<open>
  A run on the \<open>'redis'\<close> driver in which every call is answered by Redis: call \<open>i\<close> is
  decided on the counter \<open>cnt i\<close> and the time to live \<open>ttl i\<close> that Redis replies.
\<close>

lemma calls_answered_by_redis:
  assumes "driver s = ''redis''"
    and "initialized s \<or> connect_ok (fst (cs ! 0))"
    and "\<forall>i<length cs. client (fst (cs ! i)) = ClientReady \<and>
           exec (fst (cs ! i)) = ExecResults [(False, cnt i), (False, ttl i)] \<and>
           expire_ok (fst (cs ! i))"
    and "i < length cs"
  shows "checkLimit_calls s userId key lim windowSeconds cs ! i =
     \<lparr>allowed = (cnt i \<le> lim), remaining = max 0 (lim - cnt i),
      resetTime_res = snd (cs ! i) + (if ttl i > 0 then ttl i * 1000
                                      else windowSeconds * 1000),
      current = cnt i, limit = lim,
      retryAfter = (if cnt i \<le> lim then None
                    else Some (if ttl i > 0 then ttl i else windowSeconds))\<rparr>"
  using assms
proof (induction cs arbitrary: s cnt ttl i)
  case Nil
  then show ?case by simp
next
  case (Cons c cs)
  let ?s1 = "s\<lparr>initialized := True\<rparr>"
  have ok0: "client (fst c) = ClientReady"
    "exec (fst c) = ExecResults [(False, cnt 0), (False, ttl 0)]" "expire_ok (fst c)"
    using Cons.prems(3) by auto
  have conn: "initialized s \<or> connect_ok (fst c)" using Cons.prems(2) by simp
  have step: "checkLimit (fst c) s userId key lim windowSeconds (snd c) =
     (\<lparr>allowed = (cnt 0 \<le> lim), remaining = max 0 (lim - cnt 0),
       resetTime_res = snd c + (if ttl 0 > 0 then ttl 0 * 1000 else windowSeconds * 1000),
       current = cnt 0, limit = lim,
       retryAfter = (if cnt 0 \<le> lim then None
                     else Some (if ttl 0 > 0 then ttl 0 else windowSeconds))\<rparr>, ?s1)"
    using checkLimit_redis_driver [OF Cons.prems(1) conn] checkLimitRedis_healthy [OF ok0]
    by simp
  show ?case
  proof (cases i)
    case 0
    then show ?thesis by (simp add: step)
  next
    case (Suc j)
    have "checkLimit_calls ?s1 userId key lim windowSeconds cs ! j =
     \<lparr>allowed = ((cnt \<circ> Suc) j \<le> lim), remaining = max 0 (lim - (cnt \<circ> Suc) j),
      resetTime_res = snd (cs ! j) + (if (ttl \<circ> Suc) j > 0 then (ttl \<circ> Suc) j * 1000
                                      else windowSeconds * 1000),
      current = (cnt \<circ> Suc) j, limit = lim,
      retryAfter = (if (cnt \<circ> Suc) j \<le> lim then None
                    else Some (if (ttl \<circ> Suc) j > 0 then (ttl \<circ> Suc) j
                               else windowSeconds))\<rparr>"
    proof (rule Cons.IH)
      show "driver ?s1 = ''redis''" using Cons.prems(1) by simp
      show "initialized ?s1 \<or> connect_ok (fst (cs ! 0))" by simp
      show "\<forall>i<length cs. client (fst (cs ! i)) = ClientReady \<and>
              exec (fst (cs ! i)) =
                ExecResults [(False, (cnt \<circ> Suc) i), (False, (ttl \<circ> Suc) i)] \<and>
              expire_ok (fst (cs ! i))"
      proof (intro allI impI)
        fix i assume "i < length cs"
        then have "Suc i < length (c # cs)" by simp
        from Cons.prems(3) [rule_format, OF this]
        show "client (fst (cs ! i)) = ClientReady \<and>
              exec (fst (cs ! i)) =
                ExecResults [(False, (cnt \<circ> Suc) i), (False, (ttl \<circ> Suc) i)] \<and>
              expire_ok (fst (cs ! i))"
          by simp
      qed
      show "j < length cs" using Cons.prems(4) Suc by simp
    qed
    then show ?thesis using Suc by (simp add: step)
  qed
qed

subsection \<open>Inputs used in examples\<close>

lemma RateLimiter_new_memory:
  "RateLimiter_new None = \<lparr>driver = ''memory'', memoryStore = Map.empty, initialized = False\<rparr>"
  by (simp add: RateLimiter_new_def)

subsection \<open>Claims about the rate limiter\<close>

text \<open>
  C1 (the decision is taken on the count after incrementing, and \<open>remaining\<close> is never
  negative). On the memory backend the call that opens a window does not compare the
  count with the limit: with limit 0 the first call for a key, the count being 1, is
  answered \<open>allowed = true\<close> and \<open>remaining = -1\<close>.
\<close>

theorem first_call_limit0_not_decided_on_count:
  "fst (checkLimit io (RateLimiter_new None) ''u1'' ''general'' 0 60 1000) =
     \<lparr>allowed = True, remaining = - 1, resetTime_res = 61000, current = 1, limit = 0,
      retryAfter = None\<rparr>"
  by (simp add: checkLimit_def initialize_def RateLimiter_new_def checkLimitMemory_def)

text \<open>
  With a limit of at least 1 the opening call agrees with the count (lemma
  \<open>kth_call_in_window\<close>). The run of the scenario, limit 3 and a window of 60 seconds:
  three calls allowed with 2, 1 and 0 remaining, seven rejected with 0 remaining and at
  most 60 seconds to wait, and a new window once the first has lapsed.
\<close>

lemma limit3_scenario:
  "map (\<lambda>r. (allowed r, remaining r, retryAfter r))
     (checkLimit_calls (RateLimiter_new None) ''u1'' ''upload_per_minute'' 3 60
        [(io, 1000), (io, 1001), (io, 1002), (io, 1003), (io, 2000), (io, 30000),
         (io, 60000), (io, 60001), (io, 60999), (io, 60999), (io, 61000)]) =
   [(True, 2, None), (True, 1, None), (True, 0, None), (False, 0, Some 60),
    (False, 0, Some 59), (False, 0, Some 31), (False, 0, Some 1), (False, 0, Some 1),
    (False, 0, Some 1), (False, 0, Some 1), (True, 2, None)]"
  by (simp add: checkLimit_def initialize_def RateLimiter_new_def checkLimitMemory_def
      ceil_div1000_def)

text \<open>
  C3 (limit 0 always rejects). On the memory backend, with limit 0 and a window of 60
  seconds, the first call for a key is allowed, the second call, inside the window, is
  rejected, and the first call after the window has lapsed is allowed again.
\<close>

theorem limit0_allowed_on_fresh_and_lapsed_window:
  "map allowed (checkLimit_calls (RateLimiter_new None) ''u1'' ''general'' 0 60
         [(io1, 1000), (io2, 2000), (io3, 61000)]) = [True, False, True]"
  by (simp add: checkLimit_def initialize_def RateLimiter_new_def checkLimitMemory_def)

text \<open>
  The Redis path decides the same first call on the count: with limit 0 and the counter
  at 1 it rejects, with \<open>remaining = 0\<close>.
\<close>

lemma redis_first_call_limit0_rejected:
  "fst (checkLimit \<lparr>connect_ok = True, client = ClientReady,
                     exec = ExecResults [(False, 1), (False, - 1)], expire_ok = True\<rparr>
          (RateLimiter_new (Some ''redis'')) ''u1'' ''general'' 0 60 1000) =
     \<lparr>allowed = False, remaining = 0, resetTime_res = 61000, current = 1, limit = 0,
      retryAfter = Some 60\<rparr>"
  by (simp add: checkLimit_def initialize_def RateLimiter_new_def checkLimitRedis_def
      checkLimitRedis_try_def)

text \<open>
  C2 (the \<open>K\<close>th call of a window is allowed for \<open>K \<le> limit\<close>; call \<open>limit + 1\<close> is rejected
  with a positive \<open>retryAfter\<close>, the seconds left in the window rounded up, at most the
  window). As stated the claim fails on the \<open>'redis'\<close> driver: a call whose Redis check
  fails is counted in memory, apart from Redis' counter. With limit 1 and a window of 60
  seconds, the first call is answered by Redis, and the second, one second later, finds
  no result from the pipeline and is answered from memory: it is call \<open>limit + 1\<close> of the
  window, and it is allowed. The third call, 100 milliseconds before the window ends, is
  answered by Redis again, with the counter at 2 and a time to live of 0, and is
  rejected with \<open>retryAfter\<close> the whole window.
\<close>

theorem fallback_call_counted_apart:
  "map (\<lambda>r. (allowed r, current r, retryAfter r))
     (checkLimit_calls (RateLimiter_new (Some ''redis'')) ''u1'' ''general'' 1 60
        [(\<lparr>connect_ok = True, client = ClientReady,
            exec = ExecResults [(False, 1), (False, - 1)], expire_ok = True\<rparr>, 1000),
         (\<lparr>connect_ok = True, client = ClientReady, exec = ExecNull,
            expire_ok = True\<rparr>, 2000),
         (\<lparr>connect_ok = True, client = ClientReady,
            exec = ExecResults [(False, 2), (False, 0)], expire_ok = True\<rparr>, 60900)]) =
   [(True, 1, None), (True, 1, None), (False, 2, Some 60)]"
  by (simp add: checkLimit_def initialize_def RateLimiter_new_def checkLimitMemory_def
      checkLimitRedis_def checkLimitRedis_try_def)

text \<open>
  C2, amended: for a limit of at least 1, in a run of calls that one backend answers.
  On the memory driver, where the first call opens the window (the key is absent or its
  window has lapsed) and the later calls are made inside it, at clock readings not
  before the first: the \<open>K\<close>th call has the count \<open>K\<close> and is allowed for \<open>K \<le> limit\<close>, and
  call \<open>limit + 1\<close> is rejected with \<open>retryAfter\<close> the milliseconds left in the window
  divided by 1000 and rounded up, which is positive and at most the window. On the
  \<open>'redis'\<close> driver, where Redis answers every call without error and its counter for
  the \<open>K\<close>th call is \<open>K\<close>: the \<open>K\<close>th call has the count \<open>K\<close> and is allowed for
  \<open>K \<le> limit\<close>, and call \<open>limit + 1\<close> is rejected with \<open>retryAfter\<close> the time to live Redis
  replies when that is positive, and the window otherwise; this is positive when the
  window is, and at most the window when moreover the time to live is.
\<close>

theorem kth_call_allowed_next_rejected:
  assumes lim1: "1 \<le> lim"
    and K: "1 \<le> K" "K \<le> Suc (length cs)" "K \<le> length crs"
    and drv: "driver s \<noteq> ''redis''"
    and fresh: "case memoryStore s (userId @ '':'' @ key) of
                  None \<Rightarrow> True | Some e \<Rightarrow> resetTime e \<le> t0"
    and win: "\<forall>c\<in>set cs. t0 \<le> snd c \<and> snd c < t0 + windowSeconds * 1000"
    and rdrv: "driver sr = ''redis''" "initialized sr \<or> connect_ok (fst (crs ! 0))"
    and rok: "\<forall>i<length crs. client (fst (crs ! i)) = ClientReady \<and>
                exec (fst (crs ! i)) = ExecResults [(False, int i + 1), (False, ttl i)] \<and>
                expire_ok (fst (crs ! i))"
  shows "(let r = checkLimit_calls s userId key lim windowSeconds ((io0, t0) # cs) ! (K - 1);
              left = t0 + windowSeconds * 1000 - snd (((io0, t0) # cs) ! (K - 1))
          in current r = int K \<and>
             (int K \<le> lim \<longrightarrow> allowed r) \<and>
             (int K = lim + 1 \<longrightarrow>
                \<not> allowed r \<and> retryAfter r = Some (ceil_div1000 left) \<and>
                0 < ceil_div1000 left \<and> ceil_div1000 left \<le> windowSeconds)) \<and>
         (let r = checkLimit_calls sr userId key lim windowSeconds crs ! (K - 1);
              wait = (if ttl (K - 1) > 0 then ttl (K - 1) else windowSeconds)
          in current r = int K \<and>
             (int K \<le> lim \<longrightarrow> allowed r) \<and>
             (int K = lim + 1 \<longrightarrow>
                \<not> allowed r \<and> retryAfter r = Some wait \<and>
                (0 < windowSeconds \<longrightarrow> 0 < wait) \<and>
                (0 < windowSeconds \<and> ttl (K - 1) \<le> windowSeconds \<longrightarrow>
                   wait \<le> windowSeconds)))"
proof -
  let ?t = "snd (((io0, t0) # cs) ! (K - 1))"
  have win': "\<forall>c\<in>set cs. snd c < t0 + windowSeconds * 1000" using win by simp
  have r: "checkLimit_calls s userId key lim windowSeconds ((io0, t0) # cs) ! (K - 1) =
     \<lparr>allowed = (int K \<le> lim), remaining = max 0 (lim - int K),
      resetTime_res = t0 + windowSeconds * 1000, current = int K, limit = lim,
      retryAfter = (if int K \<le> lim then None
                    else Some (ceil_div1000 (t0 + windowSeconds * 1000 - ?t)))\<rparr>"
    by (rule kth_call_in_window [OF drv lim1 fresh win' K(1,2)])
  have t: "t0 \<le> ?t \<and> ?t < t0 + windowSeconds * 1000" if "int K = lim + 1"
  proof -
    from that lim1 have "2 \<le> K" by simp
    then obtain j where j: "K = Suc (Suc j)"
      by (metis Suc_le_D numeral_2_eq_2 Suc_le_mono)
    then have "j < length cs" using K(2) by simp
    then have "cs ! j \<in> set cs" by simp
    then show ?thesis using win j by simp
  qed
  have pos: "0 < ceil_div1000 (t0 + windowSeconds * 1000 - ?t)" if "int K = lim + 1"
    using t [OF that] by (intro ceil_div1000_pos) simp
  have le: "ceil_div1000 (t0 + windowSeconds * 1000 - ?t) \<le> windowSeconds"
    if "int K = lim + 1"
    using t [OF that] by (intro ceil_div1000_le) simp
  have Kr: "K - 1 < length crs" using K(1,3) by simp
  have cnt: "int (K - 1) + 1 = int K" using K(1) by simp
  have rr: "checkLimit_calls sr userId key lim windowSeconds crs ! (K - 1) =
     \<lparr>allowed = (int K \<le> lim), remaining = max 0 (lim - int K),
      resetTime_res = snd (crs ! (K - 1)) + (if ttl (K - 1) > 0 then ttl (K - 1) * 1000
                                             else windowSeconds * 1000),
      current = int K, limit = lim,
      retryAfter = (if int K \<le> lim then None
                    else Some (if ttl (K - 1) > 0 then ttl (K - 1) else windowSeconds))\<rparr>"
    using calls_answered_by_redis [OF rdrv rok Kr, of userId key lim windowSeconds]
    by (simp only: cnt)
  show ?thesis
    unfolding Let_def r rr using pos le by simp
qed

theorem kth_call_allowed_next_rejected_witness:
  "(let r = checkLimit_calls (RateLimiter_new None) ''u1'' ''upload_per_minute'' 3 60
              [(\<lparr>connect_ok = False, client = ClientMissing, exec = ExecNull,
                  expire_ok = False\<rparr>, 1000),
               (\<lparr>connect_ok = False, client = ClientMissing, exec = ExecNull,
                  expire_ok = False\<rparr>, 2000),
               (\<lparr>connect_ok = False, client = ClientMissing, exec = ExecNull,
                  expire_ok = False\<rparr>, 3000),
               (\<lparr>connect_ok = False, client = ClientMissing, exec = ExecNull,
                  expire_ok = False\<rparr>, 4500)] ! 3
    in current r = 4 \<and> \<not> allowed r \<and> retryAfter r = Some 57) \<and>
   (let r = checkLimit_calls (RateLimiter_new (Some ''redis'')) ''u1'' ''upload_per_minute''
              3 60
              [(\<lparr>connect_ok = True, client = ClientReady,
                  exec = ExecResults [(False, 1), (False, - 1)], expire_ok = True\<rparr>, 1000),
               (\<lparr>connect_ok = True, client = ClientReady,
                  exec = ExecResults [(False, 2), (False, 59)], expire_ok = True\<rparr>, 2000),
               (\<lparr>connect_ok = True, client = ClientReady,
                  exec = ExecResults [(False, 3), (False, 58)], expire_ok = True\<rparr>, 3000),
               (\<lparr>connect_ok = True, client = ClientReady,
                  exec = ExecResults [(False, 4), (False, 57)], expire_ok = True\<rparr>, 4500)] ! 3
    in current r = 4 \<and> \<not> allowed r \<and> retryAfter r = Some 57)"
proof -
  let ?io = "\<lparr>connect_ok = False, client = ClientMissing, exec = ExecNull,
              expire_ok = False\<rparr>"
  let ?cs = "[(?io, 2000), (?io, 3000), (?io, 4500::int)]"
  let ?ttl = "\<lambda>i::nat. [- 1, 59, 58, 57::int] ! i"
  let ?crs = "[(\<lparr>connect_ok = True, client = ClientReady,
                  exec = ExecResults [(False, 1), (False, - 1)], expire_ok = True\<rparr>, 1000),
               (\<lparr>connect_ok = True, client = ClientReady,
                  exec = ExecResults [(False, 2), (False, 59)], expire_ok = True\<rparr>, 2000),
               (\<lparr>connect_ok = True, client = ClientReady,
                  exec = ExecResults [(False, 3), (False, 58)], expire_ok = True\<rparr>, 3000),
               (\<lparr>connect_ok = True, client = ClientReady,
                  exec = ExecResults [(False, 4), (False, 57)], expire_ok = True\<rparr>,
                4500::int)]"
  have lim1: "(1::int) \<le> 3" by simp
  have K: "1 \<le> (4::nat)" "4 \<le> Suc (length ?cs)" "4 \<le> length ?crs"
    by simp_all
  have drv: "driver (RateLimiter_new None) \<noteq> ''redis''"
    by (simp add: RateLimiter_new_def)
  have fresh: "case memoryStore (RateLimiter_new None) (''u1'' @ '':'' @ ''upload_per_minute'') of
                 None \<Rightarrow> True | Some e \<Rightarrow> resetTime e \<le> 1000"
    by (simp add: RateLimiter_new_def)
  have win: "\<forall>c\<in>set ?cs. 1000 \<le> snd c \<and> snd c < 1000 + 60 * 1000"
    by simp
  have rdrv: "driver (RateLimiter_new (Some ''redis'')) = ''redis''"
    "initialized (RateLimiter_new (Some ''redis'')) \<or> connect_ok (fst (?crs ! 0))"
    by (simp_all add: RateLimiter_new_def)
  have rok: "\<forall>i<length ?crs. client (fst (?crs ! i)) = ClientReady \<and>
               exec (fst (?crs ! i)) = ExecResults [(False, int i + 1), (False, ?ttl i)] \<and>
               expire_ok (fst (?crs ! i))"
  proof (intro allI impI)
    fix i assume "i < length ?crs"
    then have "i < 4" by simp
    then have "i = 0 \<or> i = 1 \<or> i = 2 \<or> i = 3" by arith
    then show "client (fst (?crs ! i)) = ClientReady \<and>
               exec (fst (?crs ! i)) = ExecResults [(False, int i + 1), (False, ?ttl i)] \<and>
               expire_ok (fst (?crs ! i))"
      by (elim disjE) simp_all
  qed
  show ?thesis
    using kth_call_allowed_next_rejected [where ?io0.0 = ?io,
        OF lim1 K drv fresh win rdrv rok]
    by (simp add: Let_def ceil_div1000_def)
qed

text \<open>
  C4 (a lapsed window is replaced by the next call). On the memory backend, when the
  stored window of the key has lapsed (\<open>now \<ge> resetTime\<close>), the call stores the count 1,
  whatever the count was, and the reset time \<open>now\<close> plus the window, which the code keeps
  in milliseconds (\<open>windowSeconds * 1000\<close>); the answer reports that window.
\<close>

theorem lapsed_window_replaced:
  assumes "driver s \<noteq> ''redis''"
    and "memoryStore s (userId @ '':'' @ key) = Some e"
    and "resetTime e \<le> now"
  shows "memoryStore (snd (checkLimit io s userId key lim windowSeconds now))
           (userId @ '':'' @ key) =
             Some \<lparr>count = 1, resetTime = now + windowSeconds * 1000\<rparr> \<and>
         current (fst (checkLimit io s userId key lim windowSeconds now)) = 1 \<and>
         resetTime_res (fst (checkLimit io s userId key lim windowSeconds now)) =
           now + windowSeconds * 1000"
proof -
  have "case memoryStore (s\<lparr>initialized := True\<rparr>) (userId @ '':'' @ key) of
          None \<Rightarrow> True | Some e \<Rightarrow> resetTime e \<le> now"
    using assms(2,3) by simp
  from checkLimitMemory_fresh [OF this] assms(1) show ?thesis
    by (simp add: checkLimit_memory_driver)
qed

theorem lapsed_window_replaced_witness:
  "memoryStore
     (snd (checkLimit \<lparr>connect_ok = False, client = ClientMissing, exec = ExecNull,
                        expire_ok = False\<rparr>
             \<lparr>driver = ''memory'',
              memoryStore = [''u1:general'' \<mapsto> \<lparr>count = 7, resetTime = 61000\<rparr>],
              initialized = True\<rparr>
             ''u1'' ''general'' 3 60 61000))
     ''u1:general'' = Some \<lparr>count = 1, resetTime = 121000\<rparr>"
proof -
  let ?s = "\<lparr>driver = ''memory'',
             memoryStore = [''u1:general'' \<mapsto> \<lparr>count = 7, resetTime = 61000\<rparr>],
             initialized = True\<rparr>"
  let ?e = "\<lparr>count = 7, resetTime = 61000\<rparr>"
  have a: "driver ?s \<noteq> ''redis''" by simp
  have b: "memoryStore ?s (''u1'' @ '':'' @ ''general'') = Some ?e" by simp
  have c: "resetTime ?e \<le> 61000" by simp
  show ?thesis
    using lapsed_window_replaced [OF a b c, of _ 3 60] by simp
qed

subsection \<open>A window that is not positive\<close>

text \<open>
  With \<open>windowSeconds \<le> 0\<close> every window is lapsed as soon as it is stored: a run of
  calls at clock readings that do not go back never leaves the branch that opens a
  window.
\<close>

lemma calls_nonpositive_window:
  assumes "driver s \<noteq> ''redis''"
    and "windowSeconds \<le> 0"
    and "sorted (map snd cs)"
    and "\<forall>c\<in>set cs. case memoryStore s (userId @ '':'' @ key) of
                        None \<Rightarrow> True | Some e \<Rightarrow> resetTime e \<le> snd c"
    and "i < length cs"
  shows "checkLimit_calls s userId key lim windowSeconds cs ! i =
     \<lparr>allowed = True, remaining = lim - 1,
      resetTime_res = snd (cs ! i) + windowSeconds * 1000,
      current = 1, limit = lim, retryAfter = None\<rparr>"
  using assms
proof (induction cs arbitrary: s i)
  case Nil
  then show ?case by simp
next
  case (Cons c cs)
  let ?s0 = "s\<lparr>initialized := True\<rparr>"
  let ?e1 = "\<lparr>count = 1, resetTime = snd c + windowSeconds * 1000\<rparr>"
  let ?s1 = "?s0\<lparr>memoryStore := (memoryStore ?s0) (userId @ '':'' @ key \<mapsto> ?e1)\<rparr>"
  have "case memoryStore ?s0 (userId @ '':'' @ key) of
          None \<Rightarrow> True | Some e \<Rightarrow> resetTime e \<le> snd c"
    using Cons.prems(4) by simp
  from checkLimitMemory_fresh [OF this] Cons.prems(1)
  have step: "checkLimit (fst c) s userId key lim windowSeconds (snd c) =
     (\<lparr>allowed = True, remaining = lim - 1,
       resetTime_res = snd c + windowSeconds * 1000,
       current = 1, limit = lim, retryAfter = None\<rparr>, ?s1)"
    by (simp add: checkLimit_memory_driver)
  show ?case
  proof (cases i)
    case 0
    then show ?thesis by (simp add: step)
  next
    case (Suc j)
    have "checkLimit_calls ?s1 userId key lim windowSeconds cs ! j =
      \<lparr>allowed = True, remaining = lim - 1,
       resetTime_res = snd (cs ! j) + windowSeconds * 1000,
       current = 1, limit = lim, retryAfter = None\<rparr>"
    proof (rule Cons.IH)
      show "driver ?s1 \<noteq> ''redis''" using Cons.prems(1) by simp
      show "windowSeconds \<le> 0" by (rule Cons.prems(2))
      show "sorted (map snd cs)" using Cons.prems(3) by simp
      show "\<forall>d\<in>set cs. case memoryStore ?s1 (userId @ '':'' @ key) of
                          None \<Rightarrow> True | Some e \<Rightarrow> resetTime e \<le> snd d"
      proof
        fix d assume "d \<in> set cs"
        then have "snd c \<le> snd d" using Cons.prems(3) by auto
        moreover have "windowSeconds * 1000 \<le> 0" using Cons.prems(2) by simp
        ultimately show "case memoryStore ?s1 (userId @ '':'' @ key) of
                           None \<Rightarrow> True | Some e \<Rightarrow> resetTime e \<le> snd d"
          by simp
      qed
      show "j < length cs" using Cons.prems(5) Suc by simp
    qed
    then show ?thesis using Suc by (simp add: step)
  qed
qed

text \<open>
  C5 (a window \<open>\<le> 0\<close> is rejected with an error). As stated the claim fails: nothing
  checks \<open>windowSeconds\<close>, and a call with window 0 is answered with a decision.
\<close>

theorem window0_answered_not_rejected:
  "checkLimit \<lparr>connect_ok = False, client = ClientMissing, exec = ExecNull,
               expire_ok = False\<rparr>
     (RateLimiter_new None) ''u1'' ''general'' 3 0 1000 =
   (\<lparr>allowed = True, remaining = 2, resetTime_res = 1000, current = 1, limit = 3,
     retryAfter = None\<rparr>,
    \<lparr>driver = ''memory'',
     memoryStore = [''u1:general'' \<mapsto> \<lparr>count = 1, resetTime = 1000\<rparr>],
     initialized = True\<rparr>)"
  by (simp add: checkLimit_def initialize_def RateLimiter_new_def checkLimitMemory_def)

text \<open>
  C5, amended: a window \<open>\<le> 0\<close> is not rejected; \<open>checkLimit\<close> answers with a decision,
  and the limit is then never enforced. On the memory backend, with a limit of at least
  1, from a key that is absent or whose window has lapsed, every call of a run at clock
  readings that do not go back is answered \<open>allowed = true\<close> with the count 1, the limit
  less 1 remaining, no \<open>retryAfter\<close>, and a reset time that is not after the call.
\<close>

theorem nonpositive_window_never_limits:
  assumes "driver s \<noteq> ''redis''"
    and "1 \<le> lim"
    and "windowSeconds \<le> 0"
    and "sorted (map snd cs)"
    and "\<forall>c\<in>set cs. case memoryStore s (userId @ '':'' @ key) of
                        None \<Rightarrow> True | Some e \<Rightarrow> resetTime e \<le> snd c"
    and "i < length cs"
  shows "(let r = checkLimit_calls s userId key lim windowSeconds cs ! i
          in allowed r \<and> current r = 1 \<and> remaining r = lim - 1 \<and> 0 \<le> remaining r \<and>
             retryAfter r = None \<and>
             resetTime_res r = snd (cs ! i) + windowSeconds * 1000 \<and>
             resetTime_res r \<le> snd (cs ! i))"
proof -
  have "windowSeconds * 1000 \<le> 0" using assms(3) by simp
  then show ?thesis
    unfolding Let_def calls_nonpositive_window [OF assms(1,3-6)] using assms(2) by simp
qed

theorem nonpositive_window_never_limits_witness:
  "(let r = checkLimit_calls (RateLimiter_new None) ''u1'' ''general'' 1 0
              [(\<lparr>connect_ok = False, client = ClientMissing, exec = ExecNull,
                  expire_ok = False\<rparr>, 1000),
               (\<lparr>connect_ok = False, client = ClientMissing, exec = ExecNull,
                  expire_ok = False\<rparr>, 1000),
               (\<lparr>connect_ok = False, client = ClientMissing, exec = ExecNull,
                  expire_ok = False\<rparr>, 1001)] ! 2
    in allowed r \<and> current r = 1 \<and> remaining r = 0 \<and> retryAfter r = None \<and>
       resetTime_res r = 1001)"
proof -
  let ?io = "\<lparr>connect_ok = False, client = ClientMissing, exec = ExecNull,
              expire_ok = False\<rparr>"
  let ?cs = "[(?io, 1000), (?io, 1000), (?io, 1001::int)]"
  have a: "driver (RateLimiter_new None) \<noteq> ''redis''"
    by (simp add: RateLimiter_new_def)
  have l: "(1::int) \<le> 1" by simp
  have b: "(0::int) \<le> 0" by simp
  have c: "sorted (map snd ?cs)" by simp
  have d: "\<forall>c\<in>set ?cs. case memoryStore (RateLimiter_new None) (''u1'' @ '':'' @ ''general'') of
                          None \<Rightarrow> True | Some e \<Rightarrow> resetTime e \<le> snd c"
    by (simp add: RateLimiter_new_def)
  have e: "2 < length ?cs" by simp
  show ?thesis
    using nonpositive_window_never_limits [OF a l b c d e] by (simp add: Let_def)
qed

subsection \<open>Failures of the Redis backend\<close>

text \<open>
  A Redis check that fails, by an error thrown or for want of a ready client, is
  answered by \<open>_checkLimitMemory\<close> on the same state.
\<close>

lemma checkLimitRedis_failed:
  assumes "client io = ClientMissing \<or>
           (\<exists>err. checkLimitRedis_try io s userId key lim windowSeconds now = Inl err)"
  shows "checkLimitRedis io s userId key lim windowSeconds now =
           checkLimitMemory s userId key lim windowSeconds now"
  using assms by (auto simp add: checkLimitRedis_def checkLimitRedis_try_def)

text \<open>Whether the check throws depends on what Redis does, not on the limiter.\<close>

lemma checkLimitRedis_try_throws:
  assumes "checkLimitRedis_try io s userId key lim windowSeconds now = Inl err"
  shows "checkLimitRedis_try io s' userId key lim windowSeconds now = Inl err"
  using assms
  by (auto simp add: checkLimitRedis_try_def Let_def
      split: client_state.splits exec_outcome.splits list.splits if_splits)

text \<open>A failed connection in \<open>initialize\<close> leaves a limiter on the memory driver.\<close>

lemma initialize_connect_failed:
  assumes "driver s = ''redis''" and "\<not> initialized s" and "\<not> connect_ok io"
  shows "initialize io s = s\<lparr>driver := ''memory'', initialized := True\<rparr>"
  using assms by (simp add: initialize_def)

lemma initialize_connected:
  assumes "driver s = ''redis''" and "initialized s \<or> connect_ok io"
  shows "initialize io s = s\<lparr>initialized := True\<rparr>"
  using assms by (cases s) (auto simp add: initialize_def)

text \<open>The answer of \<open>_checkLimitMemory\<close> depends on the store alone.\<close>

lemma checkLimitMemory_answer:
  assumes "memoryStore s = memoryStore s'"
  shows "fst (checkLimitMemory s userId key lim windowSeconds now) =
         fst (checkLimitMemory s' userId key lim windowSeconds now)"
  using assms by (simp add: checkLimitMemory_def Let_def split: option.splits)

lemma memoryStore_initialize: "memoryStore (initialize io s) = memoryStore s"
  by (simp add: initialize_def)

text \<open>
  The Redis path leaves the limiter as it is, or as \<open>_checkLimitMemory\<close> leaves it: the
  driver changes in \<open>initialize\<close> only.
\<close>

lemma checkLimitRedis_state:
  "snd (checkLimitRedis io s userId key lim windowSeconds now) = s \<or>
   snd (checkLimitRedis io s userId key lim windowSeconds now) =
     snd (checkLimitMemory s userId key lim windowSeconds now)"
  by (simp add: checkLimitRedis_def checkLimitRedis_try_def Let_def
      split: client_state.splits exec_outcome.splits list.splits)

lemma checkLimit_keeps_redis:
  assumes "driver s = ''redis''" and "initialized s"
  shows "driver (snd (checkLimit io s userId key lim windowSeconds now)) = ''redis'' \<and>
         initialized (snd (checkLimit io s userId key lim windowSeconds now))"
proof -
  have "checkLimit io s userId key lim windowSeconds now =
        checkLimitRedis io s userId key lim windowSeconds now"
    using assms by (simp add: checkLimit_def initialize_done)
  then show ?thesis
    using checkLimitRedis_state [of io s userId key lim windowSeconds now] assms
    by (auto simp add: checkLimitMemory_driver checkLimitMemory_initialized)
qed

lemma checkLimit_keeps_memory:
  assumes "driver s \<noteq> ''redis''"
  shows "driver (snd (checkLimit io s userId key lim windowSeconds now)) = driver s \<and>
         initialized (snd (checkLimit io s userId key lim windowSeconds now))"
  using assms
  by (simp add: checkLimit_memory_driver checkLimitMemory_driver checkLimitMemory_initialized)

lemma checkLimit_run_keeps_redis:
  assumes "driver s = ''redis''" and "initialized s"
  shows "driver (checkLimit_run s cs) = ''redis'' \<and> initialized (checkLimit_run s cs)"
  using assms
proof (induction cs arbitrary: s)
  case Nil
  then show ?case by simp
next
  case (Cons c cs)
  obtain io userId key lim windowSeconds now
    where c: "c = (io, userId, key, lim, windowSeconds, now)"
    by (cases c)
  from checkLimit_keeps_redis [OF Cons.prems, of io userId key lim windowSeconds now]
  show ?case unfolding c by (simp add: Cons.IH)
qed

lemma checkLimit_run_keeps_memory:
  assumes "driver s \<noteq> ''redis''" and "initialized s"
  shows "driver (checkLimit_run s cs) = driver s \<and> initialized (checkLimit_run s cs)"
  using assms
proof (induction cs arbitrary: s)
  case Nil
  then show ?case by simp
next
  case (Cons c cs)
  obtain io userId key lim windowSeconds now
    where c: "c = (io, userId, key, lim, windowSeconds, now)"
    by (cases c)
  from checkLimit_keeps_memory [OF Cons.prems(1), of io userId key lim windowSeconds now]
  show ?case unfolding c using Cons.prems(1) by (simp add: Cons.IH)
qed
text \<open>
  C9 (a failed Redis attempt is answered from memory without an error, and one failure
  does not disable Redis for later calls). As stated the claim fails: when the
  connection attempt of the first call fails, the driver is switched to \<open>'memory'\<close> for
  good. Here the second call finds Redis healthy, with the counter at 1, and is still
  answered from memory, where the count is 2: it is rejected.
\<close>

theorem connect_failure_disables_redis:
  "driver (snd (checkLimit \<lparr>connect_ok = False, client = ClientMissing, exec = ExecThrows,
                             expire_ok = False\<rparr>
                  (RateLimiter_new (Some ''redis'')) ''u1'' ''general'' 1 60 1000)) = ''memory'' \<and>
   fst (checkLimit \<lparr>connect_ok = True, client = ClientReady,
                     exec = ExecResults [(False, 1), (False, - 1)], expire_ok = True\<rparr>
          (snd (checkLimit \<lparr>connect_ok = False, client = ClientMissing, exec = ExecThrows,
                             expire_ok = False\<rparr>
                  (RateLimiter_new (Some ''redis'')) ''u1'' ''general'' 1 60 1000))
          ''u1'' ''general'' 1 60 2000) =
     \<lparr>allowed = False, remaining = 0, resetTime_res = 61000, current = 2, limit = 1,
      retryAfter = Some 59\<rparr>"
  by (simp add: checkLimit_def initialize_def RateLimiter_new_def checkLimitMemory_def
      ceil_div1000_def)

text \<open>
  C9, amended. On the \<open>'redis'\<close> driver, every call whose Redis attempt fails (the
  connection attempt of the first call fails, or there is no ready client, or an error
  is thrown inside \<open>_checkLimitRedis\<close>) is answered by \<open>_checkLimitMemory\<close> on the
  limiter as \<open>initialize\<close> leaves it, with the decision the memory store gives: a
  decision, not an error. When the connection did not fail, the driver is \<open>'redis'\<close>
  after the call and after any run of later calls, and every later call that finds
  Redis healthy is answered from Redis' replies. When the connection attempt of the
  first call failed, the driver is \<open>'memory'\<close> after the call and after any run of later
  calls, and every later call is answered by \<open>_checkLimitMemory\<close>, whatever Redis would
  do.
\<close>

theorem redis_failure_answered_from_memory:
  assumes drv: "driver s = ''redis''"
    and fails: "(\<not> initialized s \<and> \<not> connect_ok io) \<or> client io = ClientMissing \<or>
                (\<exists>err. checkLimitRedis_try io s userId key lim windowSeconds now = Inl err)"
  shows "checkLimit io s userId key lim windowSeconds now =
           checkLimitMemory (initialize io s) userId key lim windowSeconds now \<and>
         fst (checkLimit io s userId key lim windowSeconds now) =
           fst (checkLimitMemory s userId key lim windowSeconds now) \<and>
         (if initialized s \<or> connect_ok io
          then driver (checkLimit_run (snd (checkLimit io s userId key lim windowSeconds now))
                         cs) = ''redis'' \<and>
               (client io' = ClientReady \<and>
                exec io' = ExecResults [(False, c), (False, ttl)] \<and> expire_ok io' \<longrightarrow>
                  checkLimit io'
                    (checkLimit_run (snd (checkLimit io s userId key lim windowSeconds now)) cs)
                    userId' key' lim' windowSeconds' now' =
                  (\<lparr>allowed = (c \<le> lim'), remaining = max 0 (lim' - c),
                    resetTime_res = now' + (if ttl > 0 then ttl * 1000
                                            else windowSeconds' * 1000),
                    current = c, limit = lim',
                    retryAfter = (if c \<le> lim' then None
                                  else Some (if ttl > 0 then ttl else windowSeconds'))\<rparr>,
                   checkLimit_run (snd (checkLimit io s userId key lim windowSeconds now)) cs))
          else driver (checkLimit_run (snd (checkLimit io s userId key lim windowSeconds now))
                         cs) = ''memory'' \<and>
               checkLimit io'
                 (checkLimit_run (snd (checkLimit io s userId key lim windowSeconds now)) cs)
                 userId' key' lim' windowSeconds' now' =
               checkLimitMemory
                 (checkLimit_run (snd (checkLimit io s userId key lim windowSeconds now)) cs)
                 userId' key' lim' windowSeconds' now')"
proof -
  let ?s1 = "snd (checkLimit io s userId key lim windowSeconds now)"
  let ?t = "checkLimit_run ?s1 cs"
  have eq: "checkLimit io s userId key lim windowSeconds now =
              checkLimitMemory (initialize io s) userId key lim windowSeconds now"
  proof (cases "initialized s \<or> connect_ok io")
    case True
    then have ini: "initialize io s = s\<lparr>initialized := True\<rparr>"
      using drv by (simp add: initialize_connected)
    from True fails have
      "client io = ClientMissing \<or>
       (\<exists>err. checkLimitRedis_try io s userId key lim windowSeconds now = Inl err)"
      by blast
    then have
      "client io = ClientMissing \<or>
       (\<exists>err. checkLimitRedis_try io (s\<lparr>initialized := True\<rparr>)
                 userId key lim windowSeconds now = Inl err)"
      using checkLimitRedis_try_throws [of io s userId key lim windowSeconds now]
      by blast
    from checkLimitRedis_failed [OF this] show ?thesis
      using drv by (simp add: checkLimit_def ini)
  next
    case False
    then have "initialize io s = s\<lparr>driver := ''memory'', initialized := True\<rparr>"
      using drv by (simp add: initialize_connect_failed)
    then show ?thesis by (simp add: checkLimit_def)
  qed
  have ans: "fst (checkLimit io s userId key lim windowSeconds now) =
               fst (checkLimitMemory s userId key lim windowSeconds now)"
    unfolding eq by (rule checkLimitMemory_answer) (rule memoryStore_initialize)
  have s1_init: "initialized ?s1"
    unfolding eq by (simp add: checkLimitMemory_initialized initialize_def)
  have later: "if initialized s \<or> connect_ok io
          then driver ?t = ''redis'' \<and>
               (client io' = ClientReady \<and>
                exec io' = ExecResults [(False, c), (False, ttl)] \<and> expire_ok io' \<longrightarrow>
                  checkLimit io' ?t userId' key' lim' windowSeconds' now' =
                  (\<lparr>allowed = (c \<le> lim'), remaining = max 0 (lim' - c),
                    resetTime_res = now' + (if ttl > 0 then ttl * 1000
                                            else windowSeconds' * 1000),
                    current = c, limit = lim',
                    retryAfter = (if c \<le> lim' then None
                                  else Some (if ttl > 0 then ttl else windowSeconds'))\<rparr>, ?t))
          else driver ?t = ''memory'' \<and>
               checkLimit io' ?t userId' key' lim' windowSeconds' now' =
               checkLimitMemory ?t userId' key' lim' windowSeconds' now'"
  proof (cases "initialized s \<or> connect_ok io")
    case True
    then have "initialize io s = s\<lparr>initialized := True\<rparr>"
      using drv by (simp add: initialize_connected)
    then have "driver ?s1 = ''redis''"
      unfolding eq using drv by (simp add: checkLimitMemory_driver)
    from checkLimit_run_keeps_redis [OF this s1_init, of cs]
    have t: "driver ?t = ''redis''" "initialized ?t" by simp_all
    have "checkLimit io' ?t userId' key' lim' windowSeconds' now' =
                  (\<lparr>allowed = (c \<le> lim'), remaining = max 0 (lim' - c),
                    resetTime_res = now' + (if ttl > 0 then ttl * 1000
                                            else windowSeconds' * 1000),
                    current = c, limit = lim',
                    retryAfter = (if c \<le> lim' then None
                                  else Some (if ttl > 0 then ttl else windowSeconds'))\<rparr>, ?t)"
      if "client io' = ClientReady"
        and "exec io' = ExecResults [(False, c), (False, ttl)]" and "expire_ok io'"
      using t checkLimitRedis_healthy [OF that]
      by (simp add: checkLimit_def initialize_done)
    then show ?thesis using True t(1) by simp
  next
    case False
    then have "initialize io s = s\<lparr>driver := ''memory'', initialized := True\<rparr>"
      using drv by (simp add: initialize_connect_failed)
    then have "driver ?s1 = ''memory''"
      unfolding eq by (simp add: checkLimitMemory_driver)
    then have d1: "driver ?s1 \<noteq> ''redis''" and d1': "driver ?s1 = ''memory''" by simp_all
    from checkLimit_run_keeps_memory [OF d1 s1_init, of cs]
    have t: "driver ?t = ''memory''" "initialized ?t" using d1' by simp_all
    have "checkLimit io' ?t userId' key' lim' windowSeconds' now' =
            checkLimitMemory ?t userId' key' lim' windowSeconds' now'"
      using t by (simp add: checkLimit_def initialize_done)
    then show ?thesis using False t(1) by simp
  qed
  from eq ans later show ?thesis by (intro conjI)
qed

theorem redis_failure_answered_from_memory_witness:
  "fst (checkLimit \<lparr>connect_ok = True, client = ClientReady, exec = ExecNull,
                     expire_ok = True\<rparr>
          (RateLimiter_new (Some ''redis'')) ''u1'' ''general'' 1 60 1000) =
     \<lparr>allowed = True, remaining = 0, resetTime_res = 61000, current = 1, limit = 1,
      retryAfter = None\<rparr> \<and>
   driver
     (checkLimit_run
        (snd (checkLimit \<lparr>connect_ok = True, client = ClientReady, exec = ExecNull,
                           expire_ok = True\<rparr>
                (RateLimiter_new (Some ''redis'')) ''u1'' ''general'' 1 60 1000))
        [(\<lparr>connect_ok = False, client = ClientThrows, exec = ExecThrows,
            expire_ok = False\<rparr>, ''u2'', ''upload_per_hour'', 100, 3600, 1500)]) = ''redis'' \<and>
   fst (checkLimit \<lparr>connect_ok = True, client = ClientReady,
                     exec = ExecResults [(False, 1), (False, - 1)], expire_ok = True\<rparr>
          (checkLimit_run
             (snd (checkLimit \<lparr>connect_ok = True, client = ClientReady, exec = ExecNull,
                                expire_ok = True\<rparr>
                     (RateLimiter_new (Some ''redis'')) ''u1'' ''general'' 1 60 1000))
             [(\<lparr>connect_ok = False, client = ClientThrows, exec = ExecThrows,
                 expire_ok = False\<rparr>, ''u2'', ''upload_per_hour'', 100, 3600, 1500)])
          ''u1'' ''general'' 1 60 2000) =
     \<lparr>allowed = True, remaining = 0, resetTime_res = 62000, current = 1, limit = 1,
      retryAfter = None\<rparr> \<and>
   driver
     (checkLimit_run
        (snd (checkLimit \<lparr>connect_ok = False, client = ClientMissing, exec = ExecThrows,
                           expire_ok = False\<rparr>
                (RateLimiter_new (Some ''redis'')) ''u1'' ''general'' 1 60 1000))
        [(\<lparr>connect_ok = True, client = ClientReady,
            exec = ExecResults [(False, 1), (False, - 1)], expire_ok = True\<rparr>,
          ''u2'', ''upload_per_hour'', 100, 3600, 1500)]) = ''memory'' \<and>
   fst (checkLimit \<lparr>connect_ok = True, client = ClientReady,
                     exec = ExecResults [(False, 1), (False, - 1)], expire_ok = True\<rparr>
          (checkLimit_run
             (snd (checkLimit \<lparr>connect_ok = False, client = ClientMissing, exec = ExecThrows,
                                expire_ok = False\<rparr>
                     (RateLimiter_new (Some ''redis'')) ''u1'' ''general'' 1 60 1000))
             [(\<lparr>connect_ok = True, client = ClientReady,
                 exec = ExecResults [(False, 1), (False, - 1)], expire_ok = True\<rparr>,
               ''u2'', ''upload_per_hour'', 100, 3600, 1500)])
          ''u1'' ''general'' 1 60 2000) =
     \<lparr>allowed = False, remaining = 0, resetTime_res = 61000, current = 2, limit = 1,
      retryAfter = Some 59\<rparr>"
proof -
  let ?fail = "\<lparr>connect_ok = True, client = ClientReady, exec = ExecNull, expire_ok = True\<rparr>"
  let ?thr = "\<lparr>connect_ok = False, client = ClientThrows, exec = ExecThrows,
               expire_ok = False\<rparr>"
  let ?up = "\<lparr>connect_ok = True, client = ClientReady,
              exec = ExecResults [(False, 1), (False, - 1)], expire_ok = True\<rparr>"
  let ?down = "\<lparr>connect_ok = False, client = ClientMissing, exec = ExecThrows,
                expire_ok = False\<rparr>"
  let ?s = "RateLimiter_new (Some ''redis'')"
  let ?cs1 = "[(?thr, ''u2'', ''upload_per_hour'', 100, 3600, 1500)]"
  let ?cs2 = "[(?up, ''u2'', ''upload_per_hour'', 100, 3600, 1500)]"
  have d: "driver ?s = ''redis''"
    by (simp add: RateLimiter_new_def)
  have f1: "(\<not> initialized ?s \<and> \<not> connect_ok ?fail) \<or> client ?fail = ClientMissing \<or>
            (\<exists>err. checkLimitRedis_try ?fail ?s ''u1'' ''general'' 1 60 1000 = Inl err)"
    by (simp add: checkLimitRedis_try_def)
  have f2: "(\<not> initialized ?s \<and> \<not> connect_ok ?down) \<or> client ?down = ClientMissing \<or>
            (\<exists>err. checkLimitRedis_try ?down ?s ''u1'' ''general'' 1 60 1000 = Inl err)"
    by simp
  have c1: "initialized ?s \<or> connect_ok ?fail" by simp
  have c2: "\<not> (initialized ?s \<or> connect_ok ?down)" by (simp add: RateLimiter_new_def)
  have up: "client ?up = ClientReady \<and> exec ?up = ExecResults [(False, 1), (False, - 1)] \<and>
            expire_ok ?up"
    by simp
  note t1 = redis_failure_answered_from_memory [OF d f1, where cs = ?cs1 and io' = ?up
      and c = 1 and ttl = "- 1" and userId' = "''u1''" and key' = "''general''"
      and lim' = 1 and windowSeconds' = 60 and now' = 2000]
  note t2 = redis_failure_answered_from_memory [OF d f2, where cs = ?cs2 and io' = ?up
      and c = 1 and ttl = "- 1" and userId' = "''u1''" and key' = "''general''"
      and lim' = 1 and windowSeconds' = 60 and now' = 2000]
  have m1: "fst (checkLimitMemory ?s ''u1'' ''general'' 1 60 1000) =
     \<lparr>allowed = True, remaining = 0, resetTime_res = 61000, current = 1, limit = 1,
      retryAfter = None\<rparr>"
    by (simp add: checkLimitMemory_def RateLimiter_new_def)
  have a1: "fst (checkLimit ?fail ?s ''u1'' ''general'' 1 60 1000) =
     \<lparr>allowed = True, remaining = 0, resetTime_res = 61000, current = 1, limit = 1,
      retryAfter = None\<rparr>"
    using t1 [THEN conjunct2, THEN conjunct1] by (simp only: m1)
  note l1 = t1 [THEN conjunct2, THEN conjunct2, unfolded if_P [OF c1]]
  note l2 = t2 [THEN conjunct2, THEN conjunct2, unfolded if_not_P [OF c2]]
  note r1 = l1 [THEN conjunct1]
  note r2 = l2 [THEN conjunct1]
  note e2 = l2 [THEN conjunct2]
  have a2: "fst (checkLimit ?up
           (checkLimit_run (snd (checkLimit ?fail ?s ''u1'' ''general'' 1 60 1000)) ?cs1)
           ''u1'' ''general'' 1 60 2000) =
     \<lparr>allowed = True, remaining = 0, resetTime_res = 62000, current = 1, limit = 1,
      retryAfter = None\<rparr>"
    using l1 [THEN conjunct2, THEN mp, OF up] by simp
  have st: "memoryStore
              (checkLimit_run (snd (checkLimit ?down ?s ''u1'' ''general'' 1 60 1000)) ?cs2)
              (''u1'' @ '':'' @ ''general'') = Some \<lparr>count = 1, resetTime = 61000\<rparr>"
    by (simp add: checkLimit_def initialize_def RateLimiter_new_def checkLimitMemory_def)
  have a3: "fst (checkLimit ?up
           (checkLimit_run (snd (checkLimit ?down ?s ''u1'' ''general'' 1 60 1000)) ?cs2)
           ''u1'' ''general'' 1 60 2000) =
     \<lparr>allowed = False, remaining = 0, resetTime_res = 61000, current = 2, limit = 1,
      retryAfter = Some 59\<rparr>"
    unfolding e2 using checkLimitMemory_within [OF st, of 2000 1 60]
    by (simp add: ceil_div1000_def)
  from a1 r1 a2 r2 a3 show ?thesis by (intro conjI)
qed


section \<open>Properties of the quota service\<close>

subsection \<open>Keys, rounding and the cache\<close>

lemma dailyKey_monthlyKey:
  "dailyKey userId now = monthlyKey userId now @ ''-'' @ padStart2 (String_nat (dayOfMonth now))"
  by (simp add: dailyKey_def monthlyKey_def)

lemma dailyKey_neq_monthlyKey: "dailyKey userId now \<noteq> monthlyKey userId now"
  by (simp add: dailyKey_monthlyKey)

lemma monthlyKey_neq_dailyKey: "monthlyKey userId now \<noteq> dailyKey userId now"
  using dailyKey_neq_monthlyKey [of userId now] by (rule not_sym)

text \<open>\<open>ceil_MB\<close> is the least number of whole megabytes that holds the bytes.\<close>

lemma ceil_MB_rounds_up:
  "fileSizeBytes \<le> ceil_MB fileSizeBytes * 1048576 \<and>
   (ceil_MB fileSizeBytes - 1) * 1048576 < fileSizeBytes"
  unfolding ceil_MB_def by simp linarith

lemma or0_None: "or0 None = 0"
  by (simp add: or0_def)

lemma or0_Some: "or0 (Some v) = v"
  by (simp add: or0_def)

lemma map_of_Map_set: "map_of (Map_set c k v) = (map_of c)(k \<mapsto> v)"
  by (induction c) (auto simp add: fun_eq_iff)

lemma keys_Map_set:
  "map fst (Map_set c k v) = (if k \<in> set (map fst c) then map fst c else map fst c @ [k])"
  by (induction c) auto

lemma length_Map_set: "length (Map_set c k v) = length (Map_set c k v')"
proof -
  have "length (map fst (Map_set c k v)) = length (map fst (Map_set c k v'))"
    by (simp only: keys_Map_set)
  then show ?thesis by simp
qed

lemma length_Map_set2:
  "length (Map_set (Map_set c k v) k' v') = length (Map_set (Map_set c k x) k' x')"
proof -
  have "map fst (Map_set (Map_set c k v) k' v') = map fst (Map_set (Map_set c k x) k' x')"
    by (simp only: keys_Map_set)
  then have "length (map fst (Map_set (Map_set c k v) k' v')) =
             length (map fst (Map_set (Map_set c k x) k' x'))"
    by (rule arg_cong)
  then show ?thesis by simp
qed

lemma Map_set_again: "Map_set (Map_set c k v) k v' = Map_set c k v'"
  by (induction c) auto

lemma Map_set_over:
  "k \<noteq> k' \<Longrightarrow>
   Map_set (Map_set (Map_set c k v) k' v') k v'' = Map_set (Map_set c k v'') k' v'"
  by (induction c) (auto simp add: Map_set_again)

lemma fold_Map_delete:
  "fold (\<lambda>k m. Map_delete m k) ks c = filter (\<lambda>p. fst p \<notin> set ks) c"
proof (induction ks arbitrary: c)
  case Nil
  then show ?case by simp
next
  case (Cons k ks)
  have "fold (\<lambda>k m. Map_delete m k) (k # ks) c =
        fold (\<lambda>k m. Map_delete m k) ks (Map_delete c k)"
    by simp
  also have "\<dots> = filter (\<lambda>p. fst p \<notin> set ks) (Map_delete c k)"
    by (rule Cons.IH)
  also have "\<dots> = filter (\<lambda>p. fst p \<notin> set (k # ks)) c"
    unfolding Map_delete_def by (induction c) auto
  finally show ?case .
qed

lemma map_of_filter_keys:
  "map_of (filter (\<lambda>p. fst p \<notin> S) c) k = (if k \<in> S then None else map_of c k)"
  by (induction c) auto

subsection \<open>Single calls\<close>

lemma getUsage_state: "snd (getUsage io w userId now) = w"
  by (simp add: getUsage_def)

lemma getUsage_cache:
  "\<not> redis (svc w) \<Longrightarrow>
   fst (getUsage io w userId now) =
     \<lparr>dailyUsage = or0 (map_of (quotaCache (svc w)) (dailyKey userId now)),
      monthlyUsage = or0 (map_of (quotaCache (svc w)) (monthlyKey userId now))\<rparr>"
  by (simp add: getUsage_def Map_get_def)

lemma getUsage_redis:
  "redis (svc w) \<Longrightarrow> get_ok io \<Longrightarrow>
   fst (getUsage io w userId now) =
     \<lparr>dailyUsage = or0 (db w (dailyKey userId now)),
      monthlyUsage = or0 (db w (monthlyKey userId now))\<rparr>"
  by (simp add: getUsage_def)

text \<open>A recording on the cache, with the cleanup that follows it.\<close>

lemma recordUsage_cache:
  assumes "enabled (svc w)" and "\<not> redis (svc w)"
  shows "recordUsage io w userId fileSizeBytes now =
     w\<lparr>svc := (svc w)\<lparr>quotaCache :=
        (let c = quotaCache (svc w);
             c2 = Map_set
                    (Map_set c (dailyKey userId now)
                       (or0 (map_of c (dailyKey userId now)) + ceil_MB fileSizeBytes))
                    (monthlyKey userId now)
                    (or0 (map_of c (monthlyKey userId now)) + ceil_MB fileSizeBytes)
         in if length c2 > 10000
            then filter (\<lambda>p. fst p \<notin> set (map fst (take 1000 c2))) c2 else c2)\<rparr>\<rparr>"
  using assms by (simp add: recordUsage_def Let_def Map_get_def fold_Map_delete)

lemma recordUsage_cache_kept:
  assumes "enabled (svc w)" and "\<not> redis (svc w)"
    and "length (Map_set (Map_set (quotaCache (svc w)) (dailyKey userId now) 0)
                   (monthlyKey userId now) 0) \<le> 10000"
  shows "recordUsage io w userId fileSizeBytes now =
     w\<lparr>svc := (svc w)\<lparr>quotaCache :=
        Map_set
          (Map_set (quotaCache (svc w)) (dailyKey userId now)
             (or0 (map_of (quotaCache (svc w)) (dailyKey userId now)) + ceil_MB fileSizeBytes))
          (monthlyKey userId now)
          (or0 (map_of (quotaCache (svc w)) (monthlyKey userId now))
             + ceil_MB fileSizeBytes)\<rparr>\<rparr>"
proof -
  let ?c = "quotaCache (svc w)"
  let ?c2 = "Map_set
          (Map_set ?c (dailyKey userId now)
             (or0 (map_of ?c (dailyKey userId now)) + ceil_MB fileSizeBytes))
          (monthlyKey userId now)
          (or0 (map_of ?c (monthlyKey userId now)) + ceil_MB fileSizeBytes)"
  have "length ?c2 = length (Map_set (Map_set ?c (dailyKey userId now) 0)
                               (monthlyKey userId now) 0)"
    by (rule length_Map_set2)
  then have "\<not> length ?c2 > 10000" using assms(3) by simp
  then show ?thesis
    unfolding recordUsage_cache [OF assms(1,2)] Let_def by simp
qed

lemma recordUsage_redis:
  assumes "enabled (svc w)" and "redis (svc w)" and "pipeline_ok io"
  shows "recordUsage io w userId fileSizeBytes now =
     w\<lparr>db := incrby (incrby (db w) (dailyKey userId now) (ceil_MB fileSizeBytes))
               (monthlyKey userId now) (ceil_MB fileSizeBytes)\<rparr>"
  using assms by (simp add: recordUsage_def Let_def)

subsection \<open>Claims about checking a quota\<close>

text \<open>
  C6 (\<open>checkQuota\<close> never changes stored usage). The state after a \<open>checkQuota\<close> call (the
  service with its cache, and the content of Redis) is the state before it. A second
  call on the state the first one left, on the same day and with Redis answering reads
  the same way, returns the same usage figures whatever the two amounts are, and the
  same whole result when the amounts are equal.
\<close>

theorem checkQuota_does_not_mutate:
  "snd (checkQuota io w userId fileSizeBytes now) = w \<and>
   map_option (\<lambda>r. (dailyUsage r, monthlyUsage r))
     (usage (fst (checkQuota io (snd (checkQuota io w userId fileSizeBytes now))
                    userId fileSizeBytes' now))) =
   map_option (\<lambda>r. (dailyUsage r, monthlyUsage r))
     (usage (fst (checkQuota io w userId fileSizeBytes now))) \<and>
   fst (checkQuota io (snd (checkQuota io w userId fileSizeBytes now))
          userId fileSizeBytes now) =
   fst (checkQuota io w userId fileSizeBytes now)"
proof -
  have frame: "snd (checkQuota io w userId b now) = w" for b
    by (simp add: checkQuota_def Let_def getUsage_state)
  have figures: "map_option (\<lambda>r. (dailyUsage r, monthlyUsage r))
                   (usage (fst (checkQuota io w userId b now))) =
                 (if enabled (svc w)
                  then Some (dailyUsage (fst (getUsage io w userId now)),
                             monthlyUsage (fst (getUsage io w userId now)))
                  else None)" for b
    by (simp add: checkQuota_def Let_def)
  show ?thesis
    by (simp only: frame figures simp_thms)
qed

text \<open>
  C8 (the daily ceiling). \<open>checkQuota\<close> on an enabled service works in whole megabytes,
  the bytes rounded up, and rejects with the reason that names the daily limit exactly
  when the daily usage it reads plus that amount exceeds the daily limit. With the limits
  100 and 1000 and no usage, 50,000,000 bytes are 48 megabytes and are allowed; once
  they are recorded, 60,000,000 bytes are 58 megabytes, 106 in all, and are rejected for
  the daily limit.
\<close>

theorem checkQuota_daily_ceiling:
  assumes "enabled (svc w)"
  shows "(fileSizeBytes \<le> ceil_MB fileSizeBytes * 1048576 \<and>
          (ceil_MB fileSizeBytes - 1) * 1048576 < fileSizeBytes) \<and>
         ((\<not> quota_allowed (fst (checkQuota io w userId fileSizeBytes now)) \<and>
           reason (fst (checkQuota io w userId fileSizeBytes now)) =
             Some (''Daily upload limit exceeded ('' @ String_int (dailyLimit (svc w))
                     @ ''MB)'')) =
          (dailyUsage (fst (getUsage io w userId now)) + ceil_MB fileSizeBytes
             > dailyLimit (svc w))) \<and>
         ceil_MB 50000000 = 48 \<and> ceil_MB 60000000 = 58 \<and>
         fst (checkQuota \<lparr>get_ok = True, pipeline_ok = True\<rparr>
                \<lparr>svc = UserQuotaService_new (Some ''true'') (Some 100) (Some 1000) True,
                 db = Map.empty\<rparr>
                ''u1'' 50000000 \<lparr>fullYear = 2025, month0 = 8, dayOfMonth = 20\<rparr>) =
           \<lparr>quota_allowed = True, reason = None,
            usage = Some \<lparr>dailyUsage = 0, monthlyUsage = 0,
                          dailyRemaining = 52, monthlyRemaining = 952\<rparr>\<rparr> \<and>
         fst (checkQuota \<lparr>get_ok = True, pipeline_ok = True\<rparr>
                (recordUsage \<lparr>get_ok = True, pipeline_ok = True\<rparr>
                   \<lparr>svc = UserQuotaService_new (Some ''true'') (Some 100) (Some 1000) True,
                    db = Map.empty\<rparr>
                   ''u1'' 50000000 \<lparr>fullYear = 2025, month0 = 8, dayOfMonth = 20\<rparr>)
                ''u1'' 60000000 \<lparr>fullYear = 2025, month0 = 8, dayOfMonth = 20\<rparr>) =
           \<lparr>quota_allowed = False, reason = Some ''Daily upload limit exceeded (100MB)'',
            usage = Some \<lparr>dailyUsage = 48, monthlyUsage = 48,
                          dailyRemaining = 52, monthlyRemaining = 952\<rparr>\<rparr>"
proof -
  let ?io = "\<lparr>get_ok = True, pipeline_ok = True\<rparr>"
  let ?w0 = "\<lparr>svc = UserQuotaService_new (Some ''true'') (Some 100) (Some 1000) True,
              db = Map.empty\<rparr>"
  let ?d = "\<lparr>fullYear = 2025, month0 = 8, dayOfMonth = 20\<rparr>"
  have general: "(\<not> quota_allowed (fst (checkQuota io w userId fileSizeBytes now)) \<and>
           reason (fst (checkQuota io w userId fileSizeBytes now)) =
             Some (''Daily upload limit exceeded ('' @ String_int (dailyLimit (svc w))
                     @ ''MB)'')) =
          (dailyUsage (fst (getUsage io w userId now)) + ceil_MB fileSizeBytes
             > dailyLimit (svc w))"
    using assms by (simp add: checkQuota_def Let_def getUsage_state)
  have mb: "ceil_MB 50000000 = 48" "ceil_MB 60000000 = 58"
    by (simp_all add: ceil_MB_def)
  have s100: "String_int 100 = ''100''"
    by (simp add: String_int_def String_nat.simps digit_char_def)
  have w0: "enabled (svc ?w0)" "redis (svc ?w0)" "dailyLimit (svc ?w0) = 100"
    "monthlyLimit (svc ?w0) = 1000"
    by (simp_all add: UserQuotaService_new_def or_default_def)
  have first: "fst (checkQuota ?io ?w0 ''u1'' 50000000 ?d) =
           \<lparr>quota_allowed = True, reason = None,
            usage = Some \<lparr>dailyUsage = 0, monthlyUsage = 0,
                          dailyRemaining = 52, monthlyRemaining = 952\<rparr>\<rparr>"
    using w0 by (simp add: checkQuota_def Let_def getUsage_def mb or0_def)
  let ?w1 = "?w0\<lparr>db := incrby (incrby (db ?w0) (dailyKey ''u1'' ?d) (ceil_MB 50000000))
                         (monthlyKey ''u1'' ?d) (ceil_MB 50000000)\<rparr>"
  have rec: "recordUsage ?io ?w0 ''u1'' 50000000 ?d = ?w1"
    using w0(1,2) by (intro recordUsage_redis) simp_all
  have w1: "enabled (svc ?w1)" "redis (svc ?w1)" "dailyLimit (svc ?w1) = 100"
    "monthlyLimit (svc ?w1) = 1000"
    using w0 by simp_all
  have u1: "fst (getUsage ?io ?w1 ''u1'' ?d) = \<lparr>dailyUsage = 48, monthlyUsage = 48\<rparr>"
    using w1(2)
    by (simp add: getUsage_def incrby_def or0_def mb dailyKey_neq_monthlyKey
        monthlyKey_neq_dailyKey)
  have second: "fst (checkQuota ?io ?w1 ''u1'' 60000000 ?d) =
           \<lparr>quota_allowed = False, reason = Some ''Daily upload limit exceeded (100MB)'',
            usage = Some \<lparr>dailyUsage = 48, monthlyUsage = 48,
                          dailyRemaining = 52, monthlyRemaining = 952\<rparr>\<rparr>"
    unfolding checkQuota_def Let_def getUsage_state u1
    using w1 by (simp add: mb s100)
  show ?thesis
    unfolding rec using ceil_MB_rounds_up general mb first second by blast
qed

theorem checkQuota_daily_ceiling_witness:
  "enabled (svc \<lparr>svc = \<lparr>enabled = True, dailyLimit = 100, monthlyLimit = 1000, redis = False,
                        quotaCache = [(''quota:u1:2025-09-20'', 48), (''quota:u1:2025-09'', 48)]\<rparr>,
                 db = Map.empty\<rparr>) \<and>
   \<not> quota_allowed
       (fst (checkQuota \<lparr>get_ok = False, pipeline_ok = False\<rparr>
               \<lparr>svc = \<lparr>enabled = True, dailyLimit = 100, monthlyLimit = 1000, redis = False,
                        quotaCache = [(''quota:u1:2025-09-20'', 48), (''quota:u1:2025-09'', 48)]\<rparr>,
                db = Map.empty\<rparr>
               ''u1'' 60000000 \<lparr>fullYear = 2025, month0 = 8, dayOfMonth = 20\<rparr>)) \<and>
   reason
       (fst (checkQuota \<lparr>get_ok = False, pipeline_ok = False\<rparr>
               \<lparr>svc = \<lparr>enabled = True, dailyLimit = 100, monthlyLimit = 1000, redis = False,
                        quotaCache = [(''quota:u1:2025-09-20'', 48), (''quota:u1:2025-09'', 48)]\<rparr>,
                db = Map.empty\<rparr>
               ''u1'' 60000000 \<lparr>fullYear = 2025, month0 = 8, dayOfMonth = 20\<rparr>)) =
     Some ''Daily upload limit exceeded (100MB)''"
proof -
  let ?io = "\<lparr>get_ok = False, pipeline_ok = False\<rparr>"
  let ?w = "\<lparr>svc = \<lparr>enabled = True, dailyLimit = 100, monthlyLimit = 1000, redis = False,
                     quotaCache = [(''quota:u1:2025-09-20'', 48), (''quota:u1:2025-09'', 48)]\<rparr>,
             db = Map.empty\<rparr>"
  let ?d = "\<lparr>fullYear = 2025, month0 = 8, dayOfMonth = 20\<rparr>"
  have en: "enabled (svc ?w)" by simp
  have dk: "dailyKey ''u1'' ?d = ''quota:u1:2025-09-20''"
    by (simp add: dailyKey_def String_nat.simps digit_char_def padStart2_def)
  have used: "dailyUsage (fst (getUsage ?io ?w ''u1'' ?d)) = 48"
    by (simp add: getUsage_def Map_get_def or0_def dk)
  have mb: "ceil_MB 60000000 = 58" by (simp add: ceil_MB_def)
  have s100: "String_int (dailyLimit (svc ?w)) = ''100''"
    by (simp add: String_int_def String_nat.simps digit_char_def)
  have over: "dailyUsage (fst (getUsage ?io ?w ''u1'' ?d)) + ceil_MB 60000000
                > dailyLimit (svc ?w)"
    by (simp add: used mb)
  from checkQuota_daily_ceiling [OF en, of 60000000 ?io "''u1''" ?d] over
  have "\<not> quota_allowed (fst (checkQuota ?io ?w ''u1'' 60000000 ?d)) \<and>
        reason (fst (checkQuota ?io ?w ''u1'' 60000000 ?d)) =
          Some (''Daily upload limit exceeded ('' @ String_int (dailyLimit (svc ?w)) @ ''MB)'')"
    by blast
  then show ?thesis
    unfolding s100 using en by simp
qed

text \<open>
  C10 (a disabled service). A service constructed with \<open>USER_QUOTA_ENABLED\<close> unset or
  different from \<open>'true'\<close> answers every \<open>checkQuota\<close> with \<open>{ allowed: true }\<close> alone, no
  reason and no usage, and \<open>recordUsage\<close> leaves the cache and Redis as they are.
\<close>

theorem disabled_service_allows_and_records_nothing:
  assumes "env_enabled \<noteq> Some ''true''"
    and "svc w = UserQuotaService_new env_enabled env_daily env_monthly redis_ctor_ok"
  shows "checkQuota io w userId fileSizeBytes now =
           (\<lparr>quota_allowed = True, reason = None, usage = None\<rparr>, w) \<and>
         recordUsage io w userId fileSizeBytes now = w"
  using assms by (simp add: checkQuota_def recordUsage_def UserQuotaService_new_def)

theorem disabled_service_allows_and_records_nothing_witness:
  "checkQuota \<lparr>get_ok = True, pipeline_ok = True\<rparr>
     \<lparr>svc = UserQuotaService_new (Some ''false'') (Some 100) None True,
      db = [''quota:u1:2025-09-20'' \<mapsto> 99, ''quota:u1:2025-09'' \<mapsto> 99]\<rparr>
     ''u1'' 60000000 \<lparr>fullYear = 2025, month0 = 8, dayOfMonth = 20\<rparr> =
   (\<lparr>quota_allowed = True, reason = None, usage = None\<rparr>,
    \<lparr>svc = UserQuotaService_new (Some ''false'') (Some 100) None True,
      db = [''quota:u1:2025-09-20'' \<mapsto> 99, ''quota:u1:2025-09'' \<mapsto> 99]\<rparr>) \<and>
   recordUsage \<lparr>get_ok = True, pipeline_ok = True\<rparr>
     \<lparr>svc = UserQuotaService_new (Some ''false'') (Some 100) None True,
      db = [''quota:u1:2025-09-20'' \<mapsto> 99, ''quota:u1:2025-09'' \<mapsto> 99]\<rparr>
     ''u1'' 60000000 \<lparr>fullYear = 2025, month0 = 8, dayOfMonth = 20\<rparr> =
   \<lparr>svc = UserQuotaService_new (Some ''false'') (Some 100) None True,
     db = [''quota:u1:2025-09-20'' \<mapsto> 99, ''quota:u1:2025-09'' \<mapsto> 99]\<rparr>"
proof -
  let ?w = "\<lparr>svc = UserQuotaService_new (Some ''false'') (Some 100) None True,
             db = [''quota:u1:2025-09-20'' \<mapsto> 99, ''quota:u1:2025-09'' \<mapsto> 99]\<rparr>"
  have a: "Some ''false'' \<noteq> Some ''true''" by simp
  have b: "svc ?w = UserQuotaService_new (Some ''false'') (Some 100) None True" by simp
  show ?thesis
    by (rule disabled_service_allows_and_records_nothing [OF a b])
qed

subsection \<open>Claims about recording usage\<close>

text \<open>
  Two recordings on the cache that trigger no cleanup: the cache ends up with the two
  keys of the day set to the earlier totals plus both amounts.
\<close>

lemma recordUsage_twice_cache:
  assumes en: "enabled (svc w)" and mem: "\<not> redis (svc w)"
    and fits: "length (Map_set (Map_set (quotaCache (svc w)) (dailyKey userId now) 0)
                         (monthlyKey userId now) 0) \<le> 10000"
  shows "recordUsage io2 (recordUsage io1 w userId a now) userId b now =
     w\<lparr>svc := (svc w)\<lparr>quotaCache :=
        Map_set
          (Map_set (quotaCache (svc w)) (dailyKey userId now)
             (or0 (map_of (quotaCache (svc w)) (dailyKey userId now))
                + ceil_MB a + ceil_MB b))
          (monthlyKey userId now)
          (or0 (map_of (quotaCache (svc w)) (monthlyKey userId now))
             + ceil_MB a + ceil_MB b)\<rparr>\<rparr>"
proof -
  let ?c = "quotaCache (svc w)"
  let ?dk = "dailyKey userId now"
  let ?mk = "monthlyKey userId now"
  let ?x = "or0 (map_of ?c ?dk)"
  let ?y = "or0 (map_of ?c ?mk)"
  let ?c1 = "Map_set (Map_set ?c ?dk (?x + ceil_MB a)) ?mk (?y + ceil_MB a)"
  let ?w1 = "w\<lparr>svc := (svc w)\<lparr>quotaCache := ?c1\<rparr>\<rparr>"
  have neq: "?dk \<noteq> ?mk" by (rule dailyKey_neq_monthlyKey)
  have r1: "recordUsage io1 w userId a now = ?w1"
    by (rule recordUsage_cache_kept [OF en mem fits])
  have en1: "enabled (svc ?w1)" and mem1: "\<not> redis (svc ?w1)"
    using en mem by simp_all
  have c1: "quotaCache (svc ?w1) = ?c1" by simp
  have "length (Map_set (Map_set ?c1 ?dk 0) ?mk 0) =
        length (Map_set (Map_set ?c ?dk 0) ?mk 0)"
  proof -
    have "Map_set (Map_set ?c1 ?dk 0) ?mk 0 = Map_set (Map_set ?c ?dk 0) ?mk 0"
      using neq by (simp add: Map_set_over Map_set_again)
    then show ?thesis by simp
  qed
  then have fits1: "length (Map_set (Map_set (quotaCache (svc ?w1)) ?dk 0) ?mk 0) \<le> 10000"
    using fits by (simp only: c1)
  have x1: "or0 (map_of ?c1 ?dk) = ?x + ceil_MB a"
    using neq by (simp add: map_of_Map_set or0_def)
  have y1: "or0 (map_of ?c1 ?mk) = ?y + ceil_MB a"
    by (simp add: map_of_Map_set or0_def)
  have "recordUsage io2 ?w1 userId b now =
     ?w1\<lparr>svc := (svc ?w1)\<lparr>quotaCache :=
        Map_set (Map_set ?c1 ?dk (?x + ceil_MB a + ceil_MB b)) ?mk
          (?y + ceil_MB a + ceil_MB b)\<rparr>\<rparr>"
    using recordUsage_cache_kept [OF en1 mem1 fits1, of io2 b]
    by (simp only: c1 x1 y1)
  moreover have "Map_set (Map_set ?c1 ?dk (?x + ceil_MB a + ceil_MB b)) ?mk
                   (?y + ceil_MB a + ceil_MB b) =
                 Map_set (Map_set ?c ?dk (?x + ceil_MB a + ceil_MB b)) ?mk
                   (?y + ceil_MB a + ceil_MB b)"
    using neq by (simp add: Map_set_over Map_set_again)
  ultimately show ?thesis by (simp add: r1)
qed

text \<open>Two recordings that both reach Redis.\<close>

lemma recordUsage_twice_redis:
  assumes en: "enabled (svc w)" and red: "redis (svc w)"
    and ok: "pipeline_ok io1" "pipeline_ok io2"
  shows "recordUsage io2 (recordUsage io1 w userId a now) userId b now =
     w\<lparr>db := (db w)
          (dailyKey userId now \<mapsto> or0 (db w (dailyKey userId now)) + ceil_MB a + ceil_MB b,
           monthlyKey userId now \<mapsto>
             or0 (db w (monthlyKey userId now)) + ceil_MB a + ceil_MB b)\<rparr>"
proof -
  let ?dk = "dailyKey userId now"
  let ?mk = "monthlyKey userId now"
  let ?w1 = "w\<lparr>db := incrby (incrby (db w) ?dk (ceil_MB a)) ?mk (ceil_MB a)\<rparr>"
  have neq: "?dk \<noteq> ?mk" by (rule dailyKey_neq_monthlyKey)
  have r1: "recordUsage io1 w userId a now = ?w1"
    by (rule recordUsage_redis [OF en red ok(1)])
  have en1: "enabled (svc ?w1)" and red1: "redis (svc ?w1)"
    using en red by simp_all
  have r2: "recordUsage io2 ?w1 userId b now =
              ?w1\<lparr>db := incrby (incrby (db ?w1) ?dk (ceil_MB b)) ?mk (ceil_MB b)\<rparr>"
    by (rule recordUsage_redis [OF en1 red1 ok(2)])
  have "incrby (incrby (db ?w1) ?dk (ceil_MB b)) ?mk (ceil_MB b) =
        (db w)(?dk \<mapsto> or0 (db w ?dk) + ceil_MB a + ceil_MB b,
               ?mk \<mapsto> or0 (db w ?mk) + ceil_MB a + ceil_MB b)"
    using neq by (auto simp add: incrby_def or0_def fun_eq_iff)
  then show ?thesis by (simp add: r1 r2)
qed

text \<open>
  A recording on a full cache whose oldest key is the user's monthly key, the day's key
  being new: the cleanup drops the monthly total just written. The next recording
  starts the month again.
\<close>

lemma recordUsage_twice_cleanup:
  assumes en: "enabled (svc w)" and mem: "\<not> redis (svc w)"
    and c: "quotaCache (svc w) = (monthlyKey userId now, y) # rest"
    and len: "length rest = 9999"
    and new: "dailyKey userId now \<notin> set (map fst rest)"
  shows "fst (getUsage io3 (recordUsage io2 (recordUsage io1 w userId a now) userId b now)
                userId now) =
           \<lparr>dailyUsage = ceil_MB a + ceil_MB b, monthlyUsage = ceil_MB b\<rparr>"
proof -
  let ?dk = "dailyKey userId now"
  let ?mk = "monthlyKey userId now"
  let ?c = "quotaCache (svc w)"
  let ?c2 = "(?mk, y + ceil_MB a) # rest @ [(?dk, ceil_MB a)]"
  let ?old = "set (map fst (take 1000 ?c2))"
  let ?c3 = "filter (\<lambda>p. fst p \<notin> ?old) ?c2"
  let ?w1 = "w\<lparr>svc := (svc w)\<lparr>quotaCache := ?c3\<rparr>\<rparr>"
  have neq: "?dk \<noteq> ?mk" by (rule dailyKey_neq_monthlyKey)
  have absent: "map_of rest ?dk = None"
    using new by (simp add: map_of_eq_None_iff)
  have set_new: "Map_set rest ?dk v = rest @ [(?dk, v)]" for v
    using new by (induction rest) auto
  have x: "or0 (map_of ?c ?dk) = 0"
    using neq absent by (simp add: c or0_def)
  have yv: "or0 (map_of ?c ?mk) = y"
    by (simp add: c or0_def)
  have c2: "Map_set (Map_set ?c ?dk (or0 (map_of ?c ?dk) + ceil_MB a)) ?mk
              (or0 (map_of ?c ?mk) + ceil_MB a) = ?c2"
    unfolding x yv using neq by (simp add: c set_new)
  have big: "length ?c2 > 10000" using len by simp
  have r1: "recordUsage io1 w userId a now = ?w1"
    unfolding recordUsage_cache [OF en mem] Let_def c2 using big by simp
  have mk_old: "?mk \<in> ?old" by simp
  have "take 1000 ?c2 = (?mk, y + ceil_MB a) # take 999 rest"
    using len by (simp add: take_Cons')
  then have old: "?old = insert ?mk (set (map fst (take 999 rest)))" by simp
  have "set (map fst (take 999 rest)) \<subseteq> set (map fst rest)"
    by (metis set_take_subset take_map)
  then have dk_kept: "?dk \<notin> ?old"
    using new neq unfolding old by auto
  have m3: "map_of ?c3 ?mk = None"
    using mk_old by (simp only: map_of_filter_keys if_True)
  have "map_of ?c3 ?dk = map_of ?c2 ?dk"
    using dk_kept by (simp only: map_of_filter_keys if_False)
  also have "\<dots> = Some (ceil_MB a)"
    using neq absent by (simp add: map_add_Some_iff)
  finally have d3: "map_of ?c3 ?dk = Some (ceil_MB a)" .
  have "?c3 = filter (\<lambda>p. fst p \<notin> ?old) (take 1000 ?c2)
                @ filter (\<lambda>p. fst p \<notin> ?old) (drop 1000 ?c2)"
    by (metis append_take_drop_id filter_append)
  moreover have "filter (\<lambda>p. fst p \<notin> ?old) (take 1000 ?c2) = []"
    by (simp only: filter_empty_conv set_map) blast
  ultimately have "length ?c3 \<le> length (drop 1000 ?c2)"
    by (simp only: append_Nil length_filter_le)
  then have len3: "length ?c3 \<le> 9001" using len by simp
  have en1: "enabled (svc ?w1)" and mem1: "\<not> redis (svc ?w1)"
    using en mem by simp_all
  have c3: "quotaCache (svc ?w1) = ?c3" by simp
  have "length (Map_set (Map_set ?c3 ?dk 0) ?mk 0) \<le> Suc (Suc (length ?c3))"
  proof -
    have "length (map fst (Map_set (Map_set ?c3 ?dk 0) ?mk 0)) \<le> Suc (Suc (length ?c3))"
      by (simp only: keys_Map_set) (simp split: if_splits)
    then show ?thesis by simp
  qed
  then have fits: "length (Map_set (Map_set (quotaCache (svc ?w1)) ?dk 0) ?mk 0) \<le> 10000"
    using len3 by (simp only: c3)
  have r2: "recordUsage io2 ?w1 userId b now =
     ?w1\<lparr>svc := (svc ?w1)\<lparr>quotaCache :=
        Map_set (Map_set ?c3 ?dk (or0 (map_of ?c3 ?dk) + ceil_MB b)) ?mk
          (or0 (map_of ?c3 ?mk) + ceil_MB b)\<rparr>\<rparr>"
    using recordUsage_cache_kept [OF en1 mem1 fits, of io2 b] by (simp only: c3)
  have fin: "fst (getUsage io3
                    (w'\<lparr>svc := (svc w')\<lparr>quotaCache :=
                        Map_set (Map_set k ?dk (or0 (map_of k ?dk) + ceil_MB b)) ?mk
                          (or0 (map_of k ?mk) + ceil_MB b)\<rparr>\<rparr>) userId now) =
               \<lparr>dailyUsage = ceil_MB a + ceil_MB b, monthlyUsage = ceil_MB b\<rparr>"
    if "map_of k ?mk = None" and "map_of k ?dk = Some (ceil_MB a)" and "\<not> redis (svc w')"
    for k w'
    using that neq by (simp add: getUsage_cache map_of_Map_set or0_def)
  show ?thesis
    unfolding r1 r2 by (rule fin [OF m3 d3 mem1])
qed

text \<open>
  C7 (recording is additive and commutative). As stated the claim fails on the cache.
  The cache below is full, \<open>u1\<close>'s monthly key is its oldest key, with 5 megabytes
  recorded, and \<open>u1\<close> has recorded nothing yet on the day. Recording 1 megabyte, then 2,
  leaves a monthly total of 2; recording 2, then 1, leaves 1; the claim says 8 for both.
\<close>

theorem cleanup_breaks_recording_order:
  "monthlyUsage
     (fst (getUsage \<lparr>get_ok = True, pipeline_ok = True\<rparr>
             \<lparr>svc = \<lparr>enabled = True, dailyLimit = 100, monthlyLimit = 1000, redis = False,
                     quotaCache = full_cache\<rparr>, db = Map.empty\<rparr>
             ''u1'' \<lparr>fullYear = 2025, month0 = 8, dayOfMonth = 20\<rparr>)) = 5 \<and>
   monthlyUsage
     (fst (getUsage \<lparr>get_ok = True, pipeline_ok = True\<rparr>
             (recordUsage \<lparr>get_ok = True, pipeline_ok = True\<rparr>
                (recordUsage \<lparr>get_ok = True, pipeline_ok = True\<rparr>
                   \<lparr>svc = \<lparr>enabled = True, dailyLimit = 100, monthlyLimit = 1000,
                           redis = False, quotaCache = full_cache\<rparr>, db = Map.empty\<rparr>
                   ''u1'' 1048576 \<lparr>fullYear = 2025, month0 = 8, dayOfMonth = 20\<rparr>)
                ''u1'' 2097152 \<lparr>fullYear = 2025, month0 = 8, dayOfMonth = 20\<rparr>)
             ''u1'' \<lparr>fullYear = 2025, month0 = 8, dayOfMonth = 20\<rparr>)) = 2 \<and>
   monthlyUsage
     (fst (getUsage \<lparr>get_ok = True, pipeline_ok = True\<rparr>
             (recordUsage \<lparr>get_ok = True, pipeline_ok = True\<rparr>
                (recordUsage \<lparr>get_ok = True, pipeline_ok = True\<rparr>
                   \<lparr>svc = \<lparr>enabled = True, dailyLimit = 100, monthlyLimit = 1000,
                           redis = False, quotaCache = full_cache\<rparr>, db = Map.empty\<rparr>
                   ''u1'' 2097152 \<lparr>fullYear = 2025, month0 = 8, dayOfMonth = 20\<rparr>)
                ''u1'' 1048576 \<lparr>fullYear = 2025, month0 = 8, dayOfMonth = 20\<rparr>)
             ''u1'' \<lparr>fullYear = 2025, month0 = 8, dayOfMonth = 20\<rparr>)) = 1"
proof -
  let ?io = "\<lparr>get_ok = True, pipeline_ok = True\<rparr>"
  let ?d = "\<lparr>fullYear = 2025, month0 = 8, dayOfMonth = 20\<rparr>"
  let ?w = "\<lparr>svc = \<lparr>enabled = True, dailyLimit = 100, monthlyLimit = 1000, redis = False,
                     quotaCache = full_cache\<rparr>, db = Map.empty\<rparr>"
  let ?rest = "map (\<lambda>i. (monthlyKey (replicate (Suc i) CHR ''x'') ?d, 1::int)) [0..<9999]"
  have en: "enabled (svc ?w)" and mem: "\<not> redis (svc ?w)" by simp_all
  have c: "quotaCache (svc ?w) = (monthlyKey ''u1'' ?d, 5) # ?rest"
    by (simp add: full_cache_def)
  have len: "length ?rest = 9999" by simp
  have "dailyKey ''u1'' ?d \<noteq> monthlyKey (replicate (Suc i) CHR ''x'') ?d" for i
    by (simp add: dailyKey_def monthlyKey_def)
  then have new: "dailyKey ''u1'' ?d \<notin> set (map fst ?rest)"
    by (simp only: set_map list.map_comp comp_def fst_conv) blast
  have prior: "monthlyUsage (fst (getUsage ?io ?w ''u1'' ?d)) = 5"
    by (simp add: getUsage_cache full_cache_def or0_def)
  have mb: "ceil_MB 1048576 = 1" "ceil_MB 2097152 = 2"
    by (simp_all add: ceil_MB_def)
  note swap = recordUsage_twice_cleanup [OF en mem c len new, of ?io ?io ?io]
  show ?thesis
    by (simp only: prior swap mb quota_usage.simps simp_thms)
qed

text \<open>
  C7, amended. On an enabled service, within one calendar day, when both recordings are
  stored and no cleanup runs, recording \<open>a\<close> then \<open>b\<close> leaves the same state as recording \<open>b\<close>
  then \<open>a\<close>, and the daily and monthly totals read afterwards are the earlier totals plus
  the two amounts in whole megabytes. Stored means, on Redis, that both pipelines
  succeed (the totals being read by \<open>GET\<close>s that succeed); no cleanup means, on the
  cache, that it holds at most 10000 keys once the two keys of the day are in it.
\<close>

theorem recordUsage_additive_commutative:
  assumes en: "enabled (svc w)"
    and stored: "if redis (svc w) then pipeline_ok io1 \<and> pipeline_ok io2 \<and> get_ok io3
                 else length (Map_set (Map_set (quotaCache (svc w)) (dailyKey userId now) 0)
                                (monthlyKey userId now) 0) \<le> 10000"
  shows "recordUsage io2 (recordUsage io1 w userId a now) userId b now =
         recordUsage io2 (recordUsage io1 w userId b now) userId a now \<and>
         fst (getUsage io3 (recordUsage io2 (recordUsage io1 w userId a now) userId b now)
                userId now) =
           \<lparr>dailyUsage = dailyUsage (fst (getUsage io3 w userId now)) + ceil_MB a + ceil_MB b,
            monthlyUsage = monthlyUsage (fst (getUsage io3 w userId now))
                             + ceil_MB a + ceil_MB b\<rparr>"
proof (cases "redis (svc w)")
  case True
  with stored have ok: "pipeline_ok io1" "pipeline_ok io2" and rd: "get_ok io3"
    by simp_all
  have neq: "dailyKey userId now \<noteq> monthlyKey userId now"
    by (rule dailyKey_neq_monthlyKey)
  have ab: "recordUsage io2 (recordUsage io1 w userId a now) userId b now =
     w\<lparr>db := (db w)
          (dailyKey userId now \<mapsto> or0 (db w (dailyKey userId now)) + ceil_MB a + ceil_MB b,
           monthlyKey userId now \<mapsto>
             or0 (db w (monthlyKey userId now)) + ceil_MB a + ceil_MB b)\<rparr>"
    by (rule recordUsage_twice_redis [OF en True ok])
  have ba: "recordUsage io2 (recordUsage io1 w userId b now) userId a now =
     w\<lparr>db := (db w)
          (dailyKey userId now \<mapsto> or0 (db w (dailyKey userId now)) + ceil_MB b + ceil_MB a,
           monthlyKey userId now \<mapsto>
             or0 (db w (monthlyKey userId now)) + ceil_MB b + ceil_MB a)\<rparr>"
    by (rule recordUsage_twice_redis [OF en True ok])
  have same: "recordUsage io2 (recordUsage io1 w userId a now) userId b now =
              recordUsage io2 (recordUsage io1 w userId b now) userId a now"
    unfolding ab ba by (simp add: add.assoc add.commute [of "ceil_MB a"])
  have total: "fst (getUsage io3 (recordUsage io2 (recordUsage io1 w userId a now) userId b now)
                userId now) =
           \<lparr>dailyUsage = dailyUsage (fst (getUsage io3 w userId now)) + ceil_MB a + ceil_MB b,
            monthlyUsage = monthlyUsage (fst (getUsage io3 w userId now))
                             + ceil_MB a + ceil_MB b\<rparr>"
    unfolding ab using True rd neq by (simp add: getUsage_redis or0_Some)
  from same total show ?thesis by (rule conjI)
next
  case False
  with stored have fits:
    "length (Map_set (Map_set (quotaCache (svc w)) (dailyKey userId now) 0)
               (monthlyKey userId now) 0) \<le> 10000"
    by simp
  have neq: "dailyKey userId now \<noteq> monthlyKey userId now"
    by (rule dailyKey_neq_monthlyKey)
  note ab = recordUsage_twice_cache [OF en False fits, of io2 io1 a b]
  note ba = recordUsage_twice_cache [OF en False fits, of io2 io1 b a]
  have same: "recordUsage io2 (recordUsage io1 w userId a now) userId b now =
              recordUsage io2 (recordUsage io1 w userId b now) userId a now"
    unfolding ab ba by (simp add: add.assoc add.commute [of "ceil_MB a"])
  have total: "fst (getUsage io3 (recordUsage io2 (recordUsage io1 w userId a now) userId b now)
                userId now) =
           \<lparr>dailyUsage = dailyUsage (fst (getUsage io3 w userId now)) + ceil_MB a + ceil_MB b,
            monthlyUsage = monthlyUsage (fst (getUsage io3 w userId now))
                             + ceil_MB a + ceil_MB b\<rparr>"
    unfolding ab using False neq by (simp add: getUsage_cache map_of_Map_set or0_Some)
  from same total show ?thesis by (rule conjI)
qed

theorem recordUsage_additive_commutative_witness:
  "fst (getUsage \<lparr>get_ok = True, pipeline_ok = True\<rparr>
          (recordUsage \<lparr>get_ok = True, pipeline_ok = True\<rparr>
             (recordUsage \<lparr>get_ok = True, pipeline_ok = True\<rparr>
                \<lparr>svc = UserQuotaService_new (Some ''true'') None None True,
                 db = [''quota:u1:2025-09-20'' \<mapsto> 5, ''quota:u1:2025-09'' \<mapsto> 7]\<rparr>
                ''u1'' 50000000 \<lparr>fullYear = 2025, month0 = 8, dayOfMonth = 20\<rparr>)
             ''u1'' 60000000 \<lparr>fullYear = 2025, month0 = 8, dayOfMonth = 20\<rparr>)
          ''u1'' \<lparr>fullYear = 2025, month0 = 8, dayOfMonth = 20\<rparr>) =
     \<lparr>dailyUsage = 111, monthlyUsage = 113\<rparr> \<and>
   fst (getUsage \<lparr>get_ok = False, pipeline_ok = False\<rparr>
          (recordUsage \<lparr>get_ok = False, pipeline_ok = False\<rparr>
             (recordUsage \<lparr>get_ok = False, pipeline_ok = False\<rparr>
                \<lparr>svc = UserQuotaService_new (Some ''true'') None None False,
                 db = Map.empty\<rparr>
                ''u1'' 50000000 \<lparr>fullYear = 2025, month0 = 8, dayOfMonth = 20\<rparr>)
             ''u1'' 60000000 \<lparr>fullYear = 2025, month0 = 8, dayOfMonth = 20\<rparr>)
          ''u1'' \<lparr>fullYear = 2025, month0 = 8, dayOfMonth = 20\<rparr>) =
     \<lparr>dailyUsage = 106, monthlyUsage = 106\<rparr>"
proof -
  let ?ok = "\<lparr>get_ok = True, pipeline_ok = True\<rparr>"
  let ?no = "\<lparr>get_ok = False, pipeline_ok = False\<rparr>"
  let ?d = "\<lparr>fullYear = 2025, month0 = 8, dayOfMonth = 20\<rparr>"
  let ?wr = "\<lparr>svc = UserQuotaService_new (Some ''true'') None None True,
              db = [''quota:u1:2025-09-20'' \<mapsto> 5, ''quota:u1:2025-09'' \<mapsto> 7]\<rparr>"
  let ?wc = "\<lparr>svc = UserQuotaService_new (Some ''true'') None None False, db = Map.empty\<rparr>"
  have dk: "dailyKey ''u1'' ?d = ''quota:u1:2025-09-20''"
    by (simp add: dailyKey_def String_nat.simps digit_char_def padStart2_def)
  have mk: "monthlyKey ''u1'' ?d = ''quota:u1:2025-09''"
    by (simp add: monthlyKey_def String_nat.simps digit_char_def padStart2_def)
  have mb: "ceil_MB 50000000 = 48" "ceil_MB 60000000 = 58"
    by (simp_all add: ceil_MB_def)
  have enr: "enabled (svc ?wr)" and enc: "enabled (svc ?wc)"
    by (simp_all add: UserQuotaService_new_def)
  have sr: "if redis (svc ?wr) then pipeline_ok ?ok \<and> pipeline_ok ?ok \<and> get_ok ?ok
            else length (Map_set (Map_set (quotaCache (svc ?wr)) (dailyKey ''u1'' ?d) 0)
                           (monthlyKey ''u1'' ?d) 0) \<le> 10000"
    by (simp add: UserQuotaService_new_def)
  have sc: "if redis (svc ?wc) then pipeline_ok ?no \<and> pipeline_ok ?no \<and> get_ok ?no
            else length (Map_set (Map_set (quotaCache (svc ?wc)) (dailyKey ''u1'' ?d) 0)
                           (monthlyKey ''u1'' ?d) 0) \<le> 10000"
    by (simp add: UserQuotaService_new_def dk mk)
  have ur: "fst (getUsage ?ok ?wr ''u1'' ?d) = \<lparr>dailyUsage = 5, monthlyUsage = 7\<rparr>"
    by (simp add: getUsage_def UserQuotaService_new_def dk mk or0_def)
  have uc: "fst (getUsage ?no ?wc ''u1'' ?d) = \<lparr>dailyUsage = 0, monthlyUsage = 0\<rparr>"
    by (simp add: getUsage_def UserQuotaService_new_def Map_get_def or0_def)
  note r = recordUsage_additive_commutative [OF enr sr, of 50000000 60000000,
      THEN conjunct2]
  note c = recordUsage_additive_commutative [OF enc sc, of 50000000 60000000,
      THEN conjunct2]
  show ?thesis
    unfolding r c ur uc mb by simp
qed

end
